theory Spec2Isabelle
  imports
    Main
    "HOL-Library.Sublist"
    "HOL-Library.Char_ord"
    "HOL-Library.List_Lexorder"
    "HOL-Library.Product_Lexorder"
begin

section \<open>Text and regular-expression primitives\<close>

text \<open>
  A Python \<open>str\<close> is a sequence of code points. The model uses \<^typ>\<open>string\<close>, so it covers
  text whose code points are below 256; a \<^typ>\<open>char\<close> stands for the code point
  \<^term>\<open>of_char c :: nat\<close>. The classes \<open>\s\<close>, \<open>\d\<close> and \<open>\w\<close> of the \<open>re\<close> module are
  written out for that range. The order of \<^typ>\<open>string\<close> (code points compared from the
  left, a proper prefix being smaller) is the order Python uses for \<open>str\<close>.
\<close>

definition re_space :: "char \<Rightarrow> bool" where
  "re_space c =
     (let n = (of_char c :: nat)
      in (9 \<le> n \<and> n \<le> 13) \<or> (28 \<le> n \<and> n \<le> 32) \<or> n = 133 \<or> n = 160)"

definition re_digit :: "char \<Rightarrow> bool" where
  "re_digit c = (let n = (of_char c :: nat) in 48 \<le> n \<and> n \<le> 57)"

definition re_word :: "char \<Rightarrow> bool" where
  "re_word c =
     (let n = (of_char c :: nat)
      in (48 \<le> n \<and> n \<le> 57) \<or> (65 \<le> n \<and> n \<le> 90) \<or> n = 95 \<or> (97 \<le> n \<and> n \<le> 122)
         \<or> n = 170 \<or> n = 178 \<or> n = 179 \<or> n = 181 \<or> n = 185 \<or> n = 186
         \<or> (188 \<le> n \<and> n \<le> 190) \<or> (192 \<le> n \<and> n \<le> 214) \<or> (216 \<le> n \<and> n \<le> 246)
         \<or> (248 \<le> n \<and> n \<le> 255))"

text \<open>
  The exceptions that no handler of the program catches.
\<close>

datatype error = ValueError | TypeError | UnicodeEncodeError

text \<open>
  \<open>int(m.group(2))\<close> on a run of decimal digits. Python integers have no bound, so the
  value is an \<^typ>\<open>int\<close>; \<open>decimal\<close> is the number the digits denote. \<open>int\<close> raises
  \<open>ValueError\<close> on a string of more digits than \<open>sys.get_int_max_str_digits()\<close>, which is
  4300 unless the interpreter is told otherwise; leading zeros count.
\<close>

definition digit_value :: "char \<Rightarrow> int" where
  "digit_value c = int (of_char c) - 48"

definition decimal :: "string \<Rightarrow> int" where
  "decimal ds = foldl (\<lambda>a c. 10 * a + digit_value c) 0 ds"

definition int_max_str_digits :: nat where
  "int_max_str_digits = 4300"

definition int_of_digits :: "string \<Rightarrow> error + int" where
  "int_of_digits ds =
     (if int_max_str_digits < length ds then Inl ValueError else Inr (decimal ds))"

subsection \<open>Removing comments: \<open>re.sub(r'<!--.*?-->', '', wikitext, flags=re.DOTALL)\<close>\<close>

text \<open>
  \<open>find_close s\<close> is the text after the first \<open>-->\<close> in \<open>s\<close>, if there is one: what the
  lazy \<open>.*?\<close> followed by \<open>-->\<close> consumes when it starts at \<open>s\<close>.
\<close>

fun find_close :: "string \<Rightarrow> string option" where
  "find_close [] = None"
| "find_close (c # cs) =
     (if prefix ''-->'' (c # cs) then Some (drop 3 (c # cs)) else find_close cs)"

text \<open>
  The scan goes from left to right. Where the text starts with \<open><!--\<close> and a \<open>-->\<close> follows
  those four characters, everything up to and including the first such \<open>-->\<close> is dropped
  and the scan goes on behind it; otherwise the character is kept.
\<close>

function strip_comments :: "string \<Rightarrow> string" where
  "strip_comments [] = []"
| "strip_comments (c # cs) =
     (if prefix ''<!--'' (c # cs)
      then (case find_close (drop 4 (c # cs)) of
              Some rest \<Rightarrow> strip_comments rest
            | None \<Rightarrow> c # strip_comments cs)
      else c # strip_comments cs)"
  by pat_completeness auto
termination
proof (relation "measure length")
  have fc: "length r < Suc (length s)" if "find_close s = Some r" for s r
    using that by (induction s arbitrary: r) (auto split: if_splits)
  fix c :: char and cs rest :: string
  assume "find_close (drop 4 (c # cs)) = Some rest"
  from fc [OF this] show "(rest, c # cs) \<in> measure length"
    by simp
qed simp_all

subsection \<open>One medal pattern: \<open>\|\s*gold_(\w+)\s*=\s*(\d+)\<close>\<close>

fun literal :: "string \<Rightarrow> string \<Rightarrow> string option" where
  "literal [] s = Some s"
| "literal (p # ps) [] = None"
| "literal (p # ps) (c # cs) = (if p = c then literal ps cs else None)"

text \<open>
  \<open>match_medal field s\<close> matches the pattern with the field prefix \<open>field\<close> (\<open>gold_\<close>,
  \<open>silver_\<close> or \<open>bronze_\<close>) at the start of \<open>s\<close> and returns group 1, group 2
  (the run of digits) and the text behind the match. Each greedy repetition takes the longest run:
  the character that has to follow a run (\<open>g\<close>, \<open>s\<close> or \<open>b\<close> of the field, \<open>=\<close>, white
  space, a digit) is never of the class repeated before it, so giving characters
  back cannot turn a failed match into a match, and the final \<open>\d+\<close> keeps its longest run.
\<close>

definition match_medal :: "string \<Rightarrow> string \<Rightarrow> (string \<times> string \<times> string) option" where
  "match_medal field s =
     (case s of
        [] \<Rightarrow> None
      | c # r0 \<Rightarrow>
          if c \<noteq> CHR ''|'' then None
          else (case literal field (dropWhile re_space r0) of
                  None \<Rightarrow> None
                | Some r1 \<Rightarrow>
                    let code = takeWhile re_word r1;
                        r2 = dropWhile re_space (dropWhile re_word r1)
                    in if code = [] then None
                       else (case r2 of
                               [] \<Rightarrow> None
                             | e # r3 \<Rightarrow>
                                 if e \<noteq> CHR ''='' then None
                                 else let r4 = dropWhile re_space r3;
                                          digits = takeWhile re_digit r4
                                      in if digits = [] then None
                                         else Some (code, digits, dropWhile re_digit r4))))"

text \<open>
  \<open>pattern.finditer(clean)\<close>: the matches from left to right, without overlap, each
  with its group 1 and group 2. After a match the scan goes on behind it, after a failure
  at the next character.
\<close>

function finditer :: "string \<Rightarrow> string \<Rightarrow> (string \<times> string) list" where
  "finditer field [] = []"
| "finditer field (c # cs) =
     (case match_medal field (c # cs) of
        Some (code, digits, rest) \<Rightarrow> (code, digits) # finditer field rest
      | None \<Rightarrow> finditer field cs)"
  by pat_completeness auto
termination
proof -
  have dw: "length (dropWhile P xs) \<le> length xs" for P and xs :: string
    by (induction xs) auto
  have lit: "length r \<le> length s" if "literal p s = Some r" for p s r
    using that by (induction p s rule: literal.induct) (auto split: if_splits)
  have shorter: "length rest < length s"
    if m: "match_medal field s = Some (cd, n, rest)" for field s cd n rest
  proof -
    from m obtain c cs r1 r3 where
      s: "s = c # cs" and
      r1: "literal field (dropWhile re_space cs) = Some r1" and
      r3: "dropWhile re_space (dropWhile re_word r1) = CHR ''='' # r3" and
      rest: "rest = dropWhile re_digit (dropWhile re_space r3)"
      by (auto simp: match_medal_def Let_def split: if_splits option.splits list.splits)
    have "length rest \<le> length r3"
      unfolding rest using dw [of re_digit "dropWhile re_space r3"] dw [of re_space r3]
      by linarith
    also have "length r3 < length (dropWhile re_space (dropWhile re_word r1))"
      unfolding r3 by simp
    also have "\<dots> \<le> length r1"
      using dw [of re_space "dropWhile re_word r1"] dw [of re_word r1] by linarith
    also have "\<dots> \<le> length cs"
      using lit [OF r1] dw [of re_space cs] by linarith
    finally show ?thesis
      by (simp add: s)
  qed
  show ?thesis
    by (relation "measure (\<lambda>(field, s). length s)") (auto dest: shorter)
qed

section \<open>The data model\<close>

text \<open>
  One entry of the medal table, a Python dict with these keys. \<open>rank\<close> is \<open>None\<close> until
  the ranks are assigned.
\<close>

record entry =
  rank :: "int option"
  code :: string
  country :: string
  gold :: int
  silver :: int
  bronze :: int
  total :: int

text \<open>
  The dict comprehension \<open>{m.group(1): int(m.group(2)) for m in \<dots>}\<close>: the matches are
  taken in their order, a later match of a key overwrites an earlier one, and the first
  \<open>int\<close> that raises ends the comprehension.
\<close>

fun dict_comp :: "(string \<rightharpoonup> int) \<Rightarrow> (string \<times> string) list \<Rightarrow> error + (string \<rightharpoonup> int)" where
  "dict_comp d [] = Inr d"
| "dict_comp d ((k, ds) # ms) =
     (case int_of_digits ds of
        Inl e \<Rightarrow> Inl e
      | Inr v \<Rightarrow> dict_comp (d(k \<mapsto> v)) ms)"

definition dict_of :: "(string \<times> string) list \<Rightarrow> error + (string \<rightharpoonup> int)" where
  "dict_of ms = dict_comp Map.empty ms"

text \<open>\<open>d.get(k, default)\<close>\<close>

definition get :: "(string \<rightharpoonup> 'v) \<Rightarrow> string \<Rightarrow> 'v \<Rightarrow> 'v" where
  "get d k dflt = (case d k of Some v \<Rightarrow> v | None \<Rightarrow> dflt)"

text \<open>The code-to-name table of \<open>olympic_medals_v2.py\<close>.\<close>

definition IOC_CODES_table :: "(string \<times> string) list" where
  "IOC_CODES_table =
    [(''AIN'', ''Individual Neutral Athletes''), (''ALB'', ''Albania''),
     (''AND'', ''Andorra''), (''ARG'', ''Argentina''), (''ARM'', ''Armenia''),
     (''AUS'', ''Australia''), (''AUT'', ''Austria''), (''AZE'', ''Azerbaijan''),
     (''BEL'', ''Belgium''), (''BIH'', ''Bosnia and Herzegovina''), (''BLR'', ''Belarus''),
     (''BOL'', ''Bolivia''), (''BRA'', ''Brazil''), (''BUL'', ''Bulgaria''),
     (''CAN'', ''Canada''), (''CHI'', ''Chile''), (''CHN'', ''China''),
     (''COL'', ''Colombia''), (''CRO'', ''Croatia''), (''CYP'', ''Cyprus''),
     (''CZE'', ''Czech Republic''), (''DEN'', ''Denmark''), (''ERI'', ''Eritrea''),
     (''ESP'', ''Spain''), (''EST'', ''Estonia''), (''FIN'', ''Finland''),
     (''FRA'', ''France''), (''GBR'', ''Great Britain''), (''GEO'', ''Georgia''),
     (''GER'', ''Germany''), (''GRE'', ''Greece''), (''HUN'', ''Hungary''),
     (''ICE'', ''Iceland''), (''IND'', ''India''), (''IRI'', ''Iran''), (''IRL'', ''Ireland''),
     (''ISR'', ''Israel''), (''ITA'', ''Italy''), (''JAM'', ''Jamaica''), (''JPN'', ''Japan''),
     (''KAZ'', ''Kazakhstan''), (''KGZ'', ''Kyrgyzstan''), (''KOR'', ''South Korea''),
     (''KOS'', ''Kosovo''), (''LAT'', ''Latvia''), (''LBN'', ''Lebanon''),
     (''LIE'', ''Liechtenstein''), (''LTU'', ''Lithuania''), (''LUX'', ''Luxembourg''),
     (''MDA'', ''Moldova''), (''MEX'', ''Mexico''), (''MGL'', ''Mongolia''),
     (''MKD'', ''North Macedonia''), (''MLT'', ''Malta''), (''MNE'', ''Montenegro''),
     (''MON'', ''Monaco''), (''NED'', ''Netherlands''), (''NEP'', ''Nepal''),
     (''NGR'', ''Nigeria''), (''NOR'', ''Norway''), (''NZL'', ''New Zealand''),
     (''PAK'', ''Pakistan''), (''PER'', ''Peru''), (''PHI'', ''Philippines''),
     (''POL'', ''Poland''), (''POR'', ''Portugal''), (''PRK'', ''North Korea''),
     (''PUR'', ''Puerto Rico''), (''ROU'', ''Romania''), (''RSA'', ''South Africa''),
     (''RUS'', ''Russia''), (''SLO'', ''Slovenia''), (''SMR'', ''San Marino''),
     (''SRB'', ''Serbia''), (''SUI'', ''Switzerland''), (''SVK'', ''Slovakia''),
     (''SWE'', ''Sweden''), (''THA'', ''Thailand''), (''TPE'', ''Chinese Taipei''),
     (''TUR'', ''Turkey''), (''UKR'', ''Ukraine''), (''USA'', ''United States''),
     (''UZB'', ''Uzbekistan'')]"

definition IOC_CODES :: "string \<rightharpoonup> string" where
  "IOC_CODES = map_of IOC_CODES_table"

text \<open>The code-to-name table of \<open>olympics.1r.10m+.py\<close>.\<close>

definition IOC_CODES_widget_table :: "(string \<times> string) list" where
  "IOC_CODES_widget_table =
    [(''AIN'', ''Neutral Athletes''), (''ALB'', ''Albania''), (''AND'', ''Andorra''),
     (''ARG'', ''Argentina''), (''ARM'', ''Armenia''), (''AUS'', ''Australia''),
     (''AUT'', ''Austria''), (''AZE'', ''Azerbaijan''), (''BEL'', ''Belgium''),
     (''BIH'', ''Bosnia & Herzegovina''), (''BLR'', ''Belarus''), (''BOL'', ''Bolivia''),
     (''BRA'', ''Brazil''), (''BUL'', ''Bulgaria''), (''CAN'', ''Canada''),
     (''CHI'', ''Chile''), (''CHN'', ''China''), (''COL'', ''Colombia''),
     (''CRO'', ''Croatia''), (''CYP'', ''Cyprus''), (''CZE'', ''Czech Republic''),
     (''DEN'', ''Denmark''), (''ERI'', ''Eritrea''), (''ESP'', ''Spain''),
     (''EST'', ''Estonia''), (''FIN'', ''Finland''), (''FRA'', ''France''),
     (''GBR'', ''Great Britain''), (''GEO'', ''Georgia''), (''GER'', ''Germany''),
     (''GRE'', ''Greece''), (''HUN'', ''Hungary''), (''ICE'', ''Iceland''),
     (''IND'', ''India''), (''IRI'', ''Iran''), (''IRL'', ''Ireland''), (''ISR'', ''Israel''),
     (''ITA'', ''Italy''), (''JAM'', ''Jamaica''), (''JPN'', ''Japan''),
     (''KAZ'', ''Kazakhstan''), (''KGZ'', ''Kyrgyzstan''), (''KOR'', ''South Korea''),
     (''KOS'', ''Kosovo''), (''LAT'', ''Latvia''), (''LBN'', ''Lebanon''),
     (''LIE'', ''Liechtenstein''), (''LTU'', ''Lithuania''), (''LUX'', ''Luxembourg''),
     (''MDA'', ''Moldova''), (''MEX'', ''Mexico''), (''MGL'', ''Mongolia''),
     (''MKD'', ''North Macedonia''), (''MLT'', ''Malta''), (''MNE'', ''Montenegro''),
     (''MON'', ''Monaco''), (''NED'', ''Netherlands''), (''NEP'', ''Nepal''),
     (''NGR'', ''Nigeria''), (''NOR'', ''Norway''), (''NZL'', ''New Zealand''),
     (''PAK'', ''Pakistan''), (''PER'', ''Peru''), (''PHI'', ''Philippines''),
     (''POL'', ''Poland''), (''POR'', ''Portugal''), (''PRK'', ''North Korea''),
     (''PUR'', ''Puerto Rico''), (''ROU'', ''Romania''), (''RSA'', ''South Africa''),
     (''RUS'', ''Russia''), (''SLO'', ''Slovenia''), (''SMR'', ''San Marino''),
     (''SRB'', ''Serbia''), (''SUI'', ''Switzerland''), (''SVK'', ''Slovakia''),
     (''SWE'', ''Sweden''), (''THA'', ''Thailand''), (''TPE'', ''Chinese Taipei''),
     (''TUR'', ''Turkey''), (''UKR'', ''Ukraine''), (''USA'', ''United States''),
     (''UZB'', ''Uzbekistan'')]"

definition IOC_CODES_widget :: "string \<rightharpoonup> string" where
  "IOC_CODES_widget = map_of IOC_CODES_widget_table"

section \<open>\<open>parse_medals\<close> of \<open>olympic_medals_v2.py\<close>\<close>

text \<open>
  \<open>all_codes = set(golds.keys()) | set(silvers.keys()) | set(bronzes.keys())\<close>, as a
  function of the wikitext: the keys of each dict are the codes (group 1) of the
  matches of its pattern.
\<close>

definition all_codes :: "string \<Rightarrow> string set" where
  "all_codes wikitext =
     (let clean = strip_comments wikitext
      in fst ` set (finditer ''gold_'' clean) \<union> fst ` set (finditer ''silver_'' clean)
         \<union> fst ` set (finditer ''bronze_'' clean))"

text \<open>
  A Python set has no order of its own: \<open>for code in all_codes\<close> visits every element
  once, in a sequence that depends on the hashes of the strings, which differ from one
  process to the next. The model takes that sequence as the argument \<open>visit\<close>;
  \<open>iterates visit S\<close> says that \<open>visit\<close> is a sequence in which the loop can visit \<open>S\<close>.
\<close>

definition iterates :: "'a list \<Rightarrow> 'a set \<Rightarrow> bool" where
  "iterates visit S = (distinct visit \<and> set visit = S)"

text \<open>The loop that builds \<open>results\<close>, one code at a time.\<close>

fun collect ::
  "(string \<rightharpoonup> int) \<Rightarrow> (string \<rightharpoonup> int) \<Rightarrow> (string \<rightharpoonup> int) \<Rightarrow> string list \<Rightarrow> entry list"
where
  "collect golds silvers bronzes [] = []"
| "collect golds silvers bronzes (c # cs) =
     (let g = get golds c 0;
          s = get silvers c 0;
          b = get bronzes c 0;
          total = g + s + b
      in if total = 0 then collect golds silvers bronzes cs
         else \<lparr>rank = None, code = c, country = get IOC_CODES c c,
               gold = g, silver = s, bronze = b, total = total\<rparr>
              # collect golds silvers bronzes cs)"

text \<open>The sort key \<open>(-x["gold"], -x["silver"], -x["bronze"], x["code"])\<close>.\<close>

definition sort_tuple :: "entry \<Rightarrow> int \<times> int \<times> int \<times> string" where
  "sort_tuple x = (- gold x, - silver x, - bronze x, code x)"

text \<open>
  One pass of the ranking loop, at index \<open>i\<close>, on the list it mutates in place. The loop
  only visits indices of the list.
\<close>

definition rank_step :: "entry list \<Rightarrow> nat \<Rightarrow> entry list" where
  "rank_step results i =
     (let entry = results ! i
      in if i = 0 then results[i := entry\<lparr>rank := Some 1\<rparr>]
         else let prev = results ! (i - 1)
              in if gold entry = gold prev \<and> silver entry = silver prev
                    \<and> bronze entry = bronze prev
                 then results[i := entry\<lparr>rank := rank prev\<rparr>]
                 else results[i := entry\<lparr>rank := Some (int i + 1)\<rparr>])"

definition assign_ranks :: "entry list \<Rightarrow> entry list" where
  "assign_ranks results = foldl rank_step results [0..<length results]"

text \<open>\<open>list.sort\<close> is a stable sort by the key, as \<^const>\<open>sort_key\<close> is.\<close>

definition parse_medals :: "string list \<Rightarrow> string \<Rightarrow> error + entry list" where
  "parse_medals visit wikitext =
     (let clean = strip_comments wikitext
      in case dict_of (finditer ''gold_'' clean) of
           Inl e \<Rightarrow> Inl e
         | Inr golds \<Rightarrow>
             (case dict_of (finditer ''silver_'' clean) of
                Inl e \<Rightarrow> Inl e
              | Inr silvers \<Rightarrow>
                  (case dict_of (finditer ''bronze_'' clean) of
                     Inl e \<Rightarrow> Inl e
                   | Inr bronzes \<Rightarrow>
                       let results = collect golds silvers bronzes visit;
                           results = sort_key sort_tuple results
                       in Inr (assign_ranks results))))"

section \<open>\<open>main\<close> of \<open>olympic_medals_v2.py\<close>\<close>





text \<open>
  The request is the environment's. \<open>Raised e\<close>: the \<open>try\<close> block raises an exception whose
  text is \<open>e\<close>. \<open>Returned v\<close>: it returns \<open>data["parse"]["wikitext"]["*"]\<close>, a string or a
  JSON value of another kind.
\<close>

datatype json = Str string | NotStr

datatype response = Raised string | Returned json












section \<open>\<open>fetch_medals\<close> of \<open>olympics.1r.10m+.py\<close>\<close>

fun collect_widget ::
  "(string \<rightharpoonup> int) \<Rightarrow> (string \<rightharpoonup> int) \<Rightarrow> (string \<rightharpoonup> int) \<Rightarrow> string list \<Rightarrow> entry list"
where
  "collect_widget golds silvers bronzes [] = []"
| "collect_widget golds silvers bronzes (c # cs) =
     (let g = get golds c 0;
          s = get silvers c 0;
          b = get bronzes c 0;
          total = g + s + b
      in if total = 0 then collect_widget golds silvers bronzes cs
         else \<lparr>rank = None, code = c, country = get IOC_CODES_widget c c,
               gold = g, silver = s, bronze = b, total = total\<rparr>
              # collect_widget golds silvers bronzes cs)"

text \<open>
  The widget's ranking loop is the same text as the report's; its entries have no \<open>rank\<close>
  key before the loop, which the model writes as \<open>rank = None\<close>.
\<close>

definition rank_step_widget :: "entry list \<Rightarrow> nat \<Rightarrow> entry list" where
  "rank_step_widget results i =
     (let entry = results ! i
      in if i = 0 then results[i := entry\<lparr>rank := Some 1\<rparr>]
         else let prev = results ! (i - 1)
              in if gold entry = gold prev \<and> silver entry = silver prev
                    \<and> bronze entry = bronze prev
                 then results[i := entry\<lparr>rank := rank prev\<rparr>]
                 else results[i := entry\<lparr>rank := Some (int i + 1)\<rparr>])"

text \<open>
  \<open>fetch_medals\<close> returns \<open>None\<close> when the request raises; the parsing part is outside the
  \<open>try\<close> block.
\<close>

definition fetch_medals :: "string list \<Rightarrow> response \<Rightarrow> error + entry list option" where
  "fetch_medals visit resp =
     (case resp of
        Raised e \<Rightarrow> Inr None
      | Returned NotStr \<Rightarrow> Inl TypeError
      | Returned (Str wikitext) \<Rightarrow>
          let clean = strip_comments wikitext
          in case dict_of (finditer ''gold_'' clean) of
               Inl e \<Rightarrow> Inl e
             | Inr golds \<Rightarrow>
                 (case dict_of (finditer ''silver_'' clean) of
                    Inl e \<Rightarrow> Inl e
                  | Inr silvers \<Rightarrow>
                      (case dict_of (finditer ''bronze_'' clean) of
                         Inl e \<Rightarrow> Inl e
                       | Inr bronzes \<Rightarrow>
                           let results = collect_widget golds silvers bronzes visit;
                               results = sort_key sort_tuple results
                           in Inr (Some (foldl rank_step_widget results
                                           [0..<length results])))))"

section \<open>Derived notions\<close>

text \<open>
  The matches of a pattern with the numbers their digits denote, and the dict to which
  a list of keys and numbers is folded.
\<close>

definition medal_values :: "string \<Rightarrow> string \<Rightarrow> (string \<times> int) list" where
  "medal_values field text = map (\<lambda>(c, ds). (c, decimal ds)) (finditer field text)"

definition value_dict :: "(string \<times> int) list \<Rightarrow> (string \<rightharpoonup> int)" where
  "value_dict ms = foldl (\<lambda>d (k, v). d(k \<mapsto> v)) Map.empty ms"

text \<open>
  No \<open>int\<close> of the three comprehensions raises: every run of digits that one of the three
  patterns matches in the text without comments is within the limit.
\<close>

definition within_limit :: "(string \<times> string) list \<Rightarrow> bool" where
  "within_limit ms = list_all (\<lambda>(c, ds). length ds \<le> int_max_str_digits) ms"

definition convertible :: "string \<Rightarrow> bool" where
  "convertible wikitext =
     (let clean = strip_comments wikitext
      in within_limit (finditer ''gold_'' clean) \<and> within_limit (finditer ''silver_'' clean)
         \<and> within_limit (finditer ''bronze_'' clean))"

text \<open>
  The three dicts of \<open>parse_medals\<close> and of \<open>fetch_medals\<close>, as functions of the wikitext,
  and the entry either loop appends for a code (\<open>names\<close> is the code-to-name table).
\<close>

definition golds :: "string \<Rightarrow> (string \<rightharpoonup> int)" where
  "golds wikitext = value_dict (medal_values ''gold_'' (strip_comments wikitext))"

definition silvers :: "string \<Rightarrow> (string \<rightharpoonup> int)" where
  "silvers wikitext = value_dict (medal_values ''silver_'' (strip_comments wikitext))"

definition bronzes :: "string \<Rightarrow> (string \<rightharpoonup> int)" where
  "bronzes wikitext = value_dict (medal_values ''bronze_'' (strip_comments wikitext))"

definition medal_sum :: "string \<Rightarrow> string \<Rightarrow> int" where
  "medal_sum wikitext c =
     get (golds wikitext) c 0 + get (silvers wikitext) c 0 + get (bronzes wikitext) c 0"

definition make_entry :: "(string \<rightharpoonup> string) \<Rightarrow> string \<Rightarrow> string \<Rightarrow> entry" where
  "make_entry names wikitext c =
     \<lparr>rank = None, code = c, country = get names c c,
      gold = get (golds wikitext) c 0, silver = get (silvers wikitext) c 0,
      bronze = get (bronzes wikitext) c 0, total = medal_sum wikitext c\<rparr>"

text \<open>The list \<open>results\<close> after \<open>results.sort\<close>, before the ranks are assigned.\<close>

definition sorted_results :: "(string \<rightharpoonup> string) \<Rightarrow> string list \<Rightarrow> string \<Rightarrow> entry list" where
  "sorted_results names visit wikitext =
     sort_key sort_tuple
       (map (make_entry names wikitext) (filter (\<lambda>c. medal_sum wikitext c \<noteq> 0) visit))"

text \<open>
  The list that \<open>parse_medals\<close> returns when it returns one, and the list that the parsing
  part of \<open>fetch_medals\<close> returns.
\<close>

definition parsed :: "string list \<Rightarrow> string \<Rightarrow> entry list" where
  "parsed visit wikitext =
     assign_ranks
       (sort_key sort_tuple
          (collect (golds wikitext) (silvers wikitext) (bronzes wikitext) visit))"

definition parsed_widget :: "string list \<Rightarrow> string \<Rightarrow> entry list" where
  "parsed_widget visit wikitext =
     (let results =
            sort_key sort_tuple
              (collect_widget (golds wikitext) (silvers wikitext) (bronzes wikitext) visit)
      in foldl rank_step_widget results [0..<length results])"

text \<open>The (gold, silver, bronze) triple of an entry, and the comparison of the ranking loop.\<close>

definition triple :: "entry \<Rightarrow> int \<times> int \<times> int" where
  "triple x = (gold x, silver x, bronze x)"

definition same_medals :: "entry \<Rightarrow> entry \<Rightarrow> bool" where
  "same_medals x y = (gold x = gold y \<and> silver x = silver y \<and> bronze x = bronze y)"

text \<open>The rank the loop gives to index \<open>i\<close> of the sorted list \<open>xs\<close>, as a recursion.\<close>

fun rank_of :: "entry list \<Rightarrow> nat \<Rightarrow> int" where
  "rank_of xs 0 = 1"
| "rank_of xs (Suc i) =
     (if same_medals (xs ! Suc i) (xs ! i) then rank_of xs i else int (Suc i) + 1)"

definition ranked :: "entry list \<Rightarrow> nat \<Rightarrow> entry" where
  "ranked xs i = (xs ! i)\<lparr>rank := Some (rank_of xs i)\<rparr>"

text \<open>The index of the first entry of \<open>xs\<close> that has the triple of entry \<open>i\<close>.\<close>

definition first_same :: "entry list \<Rightarrow> nat \<Rightarrow> nat" where
  "first_same xs i = length (takeWhile (\<lambda>e. triple e \<noteq> triple (xs ! i)) xs)"




text \<open>An entry without its display name, to compare the report with the widget.\<close>

definition erase_country :: "entry \<Rightarrow> entry" where
  "erase_country e = e\<lparr>country := []\<rparr>"

text \<open>
  A text cut into chunks: \<open>with_comments ps rest\<close> is the text in which each pair \<open>(t, b)\<close>
  of \<open>ps\<close> stands for the text \<open>t\<close> followed by a comment with body \<open>b\<close>, and \<open>rest\<close> is
  the text behind the last comment; \<open>outside_comments ps rest\<close> is what lies outside the
  comments. \<open>chunked ps rest\<close> says that the cut is the one of the comments: no text
  before a comment contains an opening marker, no body contains a closing marker (the
  comment ends at the first one), and \<open>rest\<close> has no opening marker with a closing marker
  behind it.
\<close>

fun with_comments :: "(string \<times> string) list \<Rightarrow> string \<Rightarrow> string" where
  "with_comments [] rest = rest"
| "with_comments ((t, b) # ps) rest = t @ ''<!--'' @ b @ ''-->'' @ with_comments ps rest"

fun outside_comments :: "(string \<times> string) list \<Rightarrow> string \<Rightarrow> string" where
  "outside_comments [] rest = rest"
| "outside_comments ((t, b) # ps) rest = t @ outside_comments ps rest"

fun has_comment :: "string \<Rightarrow> bool" where
  "has_comment [] = False"
| "has_comment (c # cs) =
     ((prefix ''<!--'' (c # cs) \<and> sublist ''-->'' (drop 4 (c # cs))) \<or> has_comment cs)"

definition chunked :: "(string \<times> string) list \<Rightarrow> string \<Rightarrow> bool" where
  "chunked ps rest =
     (list_all (\<lambda>(t, b). \<not> sublist ''<!--'' t \<and> \<not> sublist ''-->'' b) ps \<and> \<not> has_comment rest)"

text \<open>
  A code has an assignment outside the comments: one of the three patterns matches it in
  the text that lies outside.
\<close>

definition assigned_outside :: "string \<Rightarrow> (string \<times> string) list \<Rightarrow> string \<Rightarrow> bool" where
  "assigned_outside c ps rest =
     (c \<in> fst ` set (finditer ''gold_'' (outside_comments ps rest))
      \<or> c \<in> fst ` set (finditer ''silver_'' (outside_comments ps rest))
      \<or> c \<in> fst ` set (finditer ''bronze_'' (outside_comments ps rest)))"

section \<open>The ranking loop in closed form\<close>

lemma rank_loop_prefix:
  "k \<le> length xs \<Longrightarrow>
   foldl rank_step xs [0..<k] = map (ranked xs) [0..<k] @ drop k xs"
proof (induction k)
  case 0
  then show ?case by simp
next
  case (Suc k)
  then have k: "k < length xs" by simp
  let ?A = "map (ranked xs) [0..<k]"
  have dr: "drop k xs = xs ! k # drop (Suc k) xs"
    using k by (simp add: Cons_nth_drop_Suc)
  have st: "foldl rank_step xs [0..<Suc k] = rank_step (?A @ drop k xs) k"
    using Suc by simp
  have at_k: "(?A @ drop k xs) ! k = xs ! k"
    by (simp add: nth_append dr)
  have upd: "(?A @ drop k xs)[k := v] = ?A @ v # drop (Suc k) xs" for v
    by (simp add: dr list_update_append)
  have "rank_step (?A @ drop k xs) k = ?A @ ranked xs k # drop (Suc k) xs"
  proof (cases k)
    case 0
    then show ?thesis
      using upd [of "(xs ! 0)\<lparr>rank := Some 1\<rparr>"] at_k
      by (simp add: rank_step_def ranked_def)
  next
    case (Suc j)
    have prev: "(?A @ drop k xs) ! (k - 1) = ranked xs j"
      using Suc by (simp add: nth_append)
    show ?thesis
      unfolding rank_step_def Let_def at_k prev upd
      using Suc by (simp add: ranked_def same_medals_def)
  qed
  then show ?case
    using st by simp
qed

lemma assign_ranks_eq: "assign_ranks xs = map (ranked xs) [0..<length xs]"
  by (simp add: assign_ranks_def rank_loop_prefix)

lemma ranked_fields [simp]:
  "code (ranked xs i) = code (xs ! i)"
  "country (ranked xs i) = country (xs ! i)"
  "gold (ranked xs i) = gold (xs ! i)"
  "silver (ranked xs i) = silver (xs ! i)"
  "bronze (ranked xs i) = bronze (xs ! i)"
  "total (ranked xs i) = total (xs ! i)"
  "rank (ranked xs i) = Some (rank_of xs i)"
  by (simp_all add: ranked_def)

lemma rank_of_le: "rank_of xs i \<le> int i + 1"
  by (induction i) auto

lemma rank_of_pos: "1 \<le> rank_of xs i"
  by (induction i) auto

section \<open>The list that \<open>parse_medals\<close> returns\<close>

lemma collect_eq:
  "collect (golds w) (silvers w) (bronzes w) cs =
   map (make_entry IOC_CODES w) (filter (\<lambda>c. medal_sum w c \<noteq> 0) cs)"
  by (induction cs) (simp_all add: Let_def make_entry_def medal_sum_def)

lemma parsed_eq:
  "parsed visit w =
   map (ranked (sorted_results IOC_CODES visit w))
     [0..<length (sorted_results IOC_CODES visit w)]"
  by (simp add: parsed_def assign_ranks_eq sorted_results_def collect_eq)

lemma length_parsed:
  "length (parsed visit w) = length (sorted_results IOC_CODES visit w)"
  by (simp add: parsed_eq)

lemma nth_parsed:
  "i < length (parsed visit w) \<Longrightarrow>
   parsed visit w ! i = ranked (sorted_results IOC_CODES visit w) i"
  by (simp add: parsed_eq)

section \<open>When \<open>parse_medals\<close> returns\<close>

lemma dict_comp_cases:
  "dict_comp d ms =
   (if within_limit ms
    then Inr (foldl (\<lambda>d (k, v). d(k \<mapsto> v)) d (map (\<lambda>(c, ds). (c, decimal ds)) ms))
    else Inl ValueError)"
proof (induction ms arbitrary: d)
  case Nil
  then show ?case
    by (simp add: within_limit_def)
next
  case (Cons m ms)
  obtain k ds where m: "m = (k, ds)"
    by (cases m)
  show ?case
  proof (cases "int_max_str_digits < length ds")
    case True
    then show ?thesis
      by (simp add: m int_of_digits_def within_limit_def)
  next
    case False
    then have "dict_comp d (m # ms) = dict_comp (d(k \<mapsto> decimal ds)) ms"
      by (simp add: m int_of_digits_def)
    also have "\<dots> =
        (if within_limit ms
         then Inr (foldl (\<lambda>d (k, v). d(k \<mapsto> v)) (d(k \<mapsto> decimal ds))
                    (map (\<lambda>(c, ds). (c, decimal ds)) ms))
         else Inl ValueError)"
      by (rule Cons.IH)
    also have "\<dots> =
        (if within_limit (m # ms)
         then Inr (foldl (\<lambda>d (k, v). d(k \<mapsto> v)) d (map (\<lambda>(c, ds). (c, decimal ds)) (m # ms)))
         else Inl ValueError)"
      using False by (simp add: m within_limit_def)
    finally show ?thesis .
  qed
qed

lemma dict_of_cases:
  "dict_of (finditer field text) =
   (if within_limit (finditer field text) then Inr (value_dict (medal_values field text))
    else Inl ValueError)"
  by (simp add: dict_of_def dict_comp_cases value_dict_def medal_values_def)

lemma parse_medals_cases:
  "parse_medals visit w = (if convertible w then Inr (parsed visit w) else Inl ValueError)"
  by (simp add: parse_medals_def dict_of_cases convertible_def parsed_def Let_def
      golds_def silvers_def bronzes_def)

lemma parse_medals_Inr: "parse_medals visit w = Inr out \<Longrightarrow> out = parsed visit w"
  by (simp add: parse_medals_cases split: if_splits)

text \<open>\<open>parse_medals\<close> returns a list exactly on the texts without an over-long run of digits.\<close>

lemma parse_medals_returns:
  "convertible w \<longleftrightarrow> (\<exists>out. parse_medals visit w = Inr out)"
  by (simp add: parse_medals_cases)


section \<open>The sorted list\<close>

lemma make_entry_fields [simp]:
  "code (make_entry names w c) = c"
  "gold (make_entry names w c) = get (golds w) c 0"
  "silver (make_entry names w c) = get (silvers w) c 0"
  "bronze (make_entry names w c) = get (bronzes w) c 0"
  "total (make_entry names w c) = medal_sum w c"
  "country (make_entry names w c) = get names c c"
  "rank (make_entry names w c) = None"
  by (simp_all add: make_entry_def)

lemma set_sorted_results:
  "set (sorted_results names visit w) =
   make_entry names w ` {c \<in> set visit. medal_sum w c \<noteq> 0}"
  by (simp add: sorted_results_def)

lemma inj_on_code_sorted_results: "inj_on code (set (sorted_results names visit w))"
  by (auto simp: set_sorted_results inj_on_def)

lemma distinct_sorted_results:
  "distinct visit \<Longrightarrow> distinct (sorted_results names visit w)"
  by (simp add: sorted_results_def distinct_map inj_on_def make_entry_def)

lemma distinct_codes_sorted_results:
  "distinct visit \<Longrightarrow> distinct (map code (sorted_results names visit w))"
  by (simp add: distinct_map distinct_sorted_results inj_on_code_sorted_results)

lemma distinct_keys_sorted_results:
  "distinct visit \<Longrightarrow> distinct (map sort_tuple (sorted_results names visit w))"
proof -
  assume d: "distinct visit"
  have "inj_on sort_tuple (set (sorted_results names visit w))"
    by (auto simp: set_sorted_results inj_on_def sort_tuple_def)
  then show ?thesis
    using d by (simp add: distinct_map distinct_sorted_results)
qed

lemma sorted_keys_sorted_results:
  "sorted (map sort_tuple (sorted_results names visit w))"
  by (simp add: sorted_results_def)

lemma keys_increase:
  assumes "distinct visit" and "i < j" and "j < length (sorted_results names visit w)"
  shows "sort_tuple (sorted_results names visit w ! i) < sort_tuple (sorted_results names visit w ! j)"
proof -
  let ?ks = "map sort_tuple (sorted_results names visit w)"
  have "sorted_wrt (<) ?ks"
    using assms(1) by (simp add: strict_sorted_iff sorted_keys_sorted_results distinct_keys_sorted_results)
  then have "?ks ! i < ?ks ! j"
    using assms(2,3) by (simp add: sorted_wrt_iff_nth_less)
  then show ?thesis
    using assms(2,3) by simp
qed

lemma sorted_by_key_unique:
  assumes "sorted (map sort_tuple xs)" "distinct (map sort_tuple xs)"
    and "sorted (map sort_tuple ys)" "distinct (map sort_tuple ys)"
    and "set xs = set ys"
  shows "xs = ys"
proof -
  have "inj_on sort_tuple (set xs \<union> set ys)"
    using assms(2,5) by (simp add: distinct_map)
  then show ?thesis
    using assms by (rule map_sorted_distinct_set_unique)
qed

lemma sorted_results_order_free:
  assumes "iterates v1 S" and "iterates v2 S"
  shows "sorted_results names v1 w = sorted_results names v2 w"
proof (rule sorted_by_key_unique)
  show "set (sorted_results names v1 w) = set (sorted_results names v2 w)"
    using assms by (simp add: set_sorted_results iterates_def)
qed (use assms in \<open>simp_all add: iterates_def sorted_keys_sorted_results distinct_keys_sorted_results\<close>)

lemma same_medals_triple: "same_medals x y \<longleftrightarrow> triple x = triple y"
  by (auto simp: same_medals_def triple_def)

lemma key_le_triple:
  "sort_tuple x \<le> sort_tuple y \<Longrightarrow> sort_tuple y \<le> sort_tuple z \<Longrightarrow> triple x = triple z
   \<Longrightarrow> triple y = triple x"
  by (auto simp: sort_tuple_def triple_def)

lemma keys_mono:
  "i \<le> j \<Longrightarrow> j < length (sorted_results names visit w) \<Longrightarrow>
   sort_tuple (sorted_results names visit w ! i) \<le> sort_tuple (sorted_results names visit w ! j)"
  using sorted_keys_sorted_results [of names visit w]
  by (simp add: sorted_iff_nth_mono)

lemma ties_contiguous:
  assumes "i \<le> k" "k \<le> j" "j < length (sorted_results names visit w)"
    and "triple (sorted_results names visit w ! i) = triple (sorted_results names visit w ! j)"
  shows "triple (sorted_results names visit w ! k) = triple (sorted_results names visit w ! i)"
proof -
  have a: "sort_tuple (sorted_results names visit w ! i) \<le> sort_tuple (sorted_results names visit w ! k)"
    using assms(1-3) by (intro keys_mono) simp_all
  have b: "sort_tuple (sorted_results names visit w ! k) \<le> sort_tuple (sorted_results names visit w ! j)"
    using assms(2,3) by (intro keys_mono) simp_all
  show ?thesis
    using a b assms(4) by (rule key_le_triple)
qed

lemma first_same_le: "i < length xs \<Longrightarrow> first_same xs i \<le> i"
proof -
  assume i: "i < length xs"
  have "\<not> first_same xs i > i"
  proof
    assume gt: "first_same xs i > i"
    then have "i < length (takeWhile (\<lambda>e. triple e \<noteq> triple (xs ! i)) xs)"
      by (simp add: first_same_def)
    then have "takeWhile (\<lambda>e. triple e \<noteq> triple (xs ! i)) xs ! i
        \<in> set (takeWhile (\<lambda>e. triple e \<noteq> triple (xs ! i)) xs)"
      by (rule nth_mem)
    then have "triple (takeWhile (\<lambda>e. triple e \<noteq> triple (xs ! i)) xs ! i) \<noteq> triple (xs ! i)"
      by (rule set_takeWhileD [THEN conjunct2])
    moreover have "takeWhile (\<lambda>e. triple e \<noteq> triple (xs ! i)) xs ! i = xs ! i"
      using gt by (simp add: first_same_def takeWhile_nth)
    ultimately show False by simp
  qed
  then show ?thesis by simp
qed

lemma triple_first_same:
  "i < length xs \<Longrightarrow> triple (xs ! first_same xs i) = triple (xs ! i)"
proof -
  assume i: "i < length xs"
  then have "first_same xs i < length xs"
    using first_same_le [of i xs] by simp
  then show ?thesis
    using nth_length_takeWhile [of "\<lambda>e. triple e \<noteq> triple (xs ! i)" xs]
    by (simp add: first_same_def)
qed

lemma first_same_eqI:
  assumes "n < length xs" "triple (xs ! n) = triple (xs ! i)"
    and "\<And>k. k < n \<Longrightarrow> triple (xs ! k) \<noteq> triple (xs ! i)"
  shows "first_same xs i = n"
proof -
  have "takeWhile (\<lambda>e. triple e \<noteq> triple (xs ! i)) xs = take n xs"
    using assms by (intro takeWhile_eq_take_P_nth) simp_all
  then show ?thesis
    using assms(1) by (simp add: first_same_def)
qed

lemma rank_of_first_same:
  "i < length (sorted_results names visit w) \<Longrightarrow>
   rank_of (sorted_results names visit w) i = int (first_same (sorted_results names visit w) i) + 1"
proof (induction i)
  case 0
  then have "first_same (sorted_results names visit w) 0 = 0"
    by (intro first_same_eqI) simp_all
  then show ?case by simp
next
  case (Suc i)
  let ?S = "sorted_results names visit w"
  show ?case
  proof (cases "same_medals (?S ! Suc i) (?S ! i)")
    case True
    then have "triple (?S ! Suc i) = triple (?S ! i)"
      by (simp add: same_medals_triple)
    then have "first_same ?S (Suc i) = first_same ?S i"
      by (simp add: first_same_def)
    then show ?thesis
      using True Suc by simp
  next
    case False
    have "first_same ?S (Suc i) = Suc i"
    proof (rule first_same_eqI)
      fix k assume k: "k < Suc i"
      show "triple (?S ! k) \<noteq> triple (?S ! Suc i)"
      proof
        assume "triple (?S ! k) = triple (?S ! Suc i)"
        then have "triple (?S ! i) = triple (?S ! k)"
          using ties_contiguous [of k i "Suc i" names visit w] k Suc.prems by simp
        then show False
          using False \<open>triple (?S ! k) = triple (?S ! Suc i)\<close> by (simp add: same_medals_triple)
      qed
    qed (use Suc.prems in simp_all)
    then show ?thesis
      using False by simp
  qed
qed

lemma rank_of_mono_Suc: "rank_of xs i \<le> rank_of xs (Suc i)"
  using rank_of_le [of xs i] by simp

lemma rank_of_mono: "i \<le> j \<Longrightarrow> rank_of xs i \<le> rank_of xs j"
  by (rule lift_Suc_mono_le [of "rank_of xs"]) (simp_all add: rank_of_mono_Suc del: rank_of.simps)

lemma map_triple_parsed:
  "map triple (parsed visit w) = map triple (sorted_results IOC_CODES visit w)"
  by (rule nth_equalityI) (simp_all add: length_parsed nth_parsed triple_def)

lemma first_same_cong:
  assumes "map triple xs = map triple ys" and "i < length xs"
  shows "first_same xs i = first_same ys i"
proof -
  have len: "length xs = length ys"
    using assms(1) by (rule map_eq_imp_length_eq)
  have ti: "triple (xs ! i) = triple (ys ! i)"
    using assms len by (metis nth_map)
  have "length (takeWhile (\<lambda>e. triple e \<noteq> t) zs) = length (takeWhile (\<lambda>u. u \<noteq> t) (map triple zs))"
    for t and zs :: "entry list"
    by (simp add: takeWhile_map comp_def)
  then show ?thesis
    unfolding first_same_def ti using assms(1) by simp
qed

lemma rank_parsed:
  assumes "i < length (parsed visit w)"
  shows "rank (parsed visit w ! i) = Some (int (first_same (parsed visit w) i) + 1)"
proof -
  have "first_same (parsed visit w) i = first_same (sorted_results IOC_CODES visit w) i"
    using assms by (intro first_same_cong map_triple_parsed)
  then show ?thesis
    using assms by (simp add: nth_parsed rank_of_first_same length_parsed)
qed

section \<open>Dicts, and facts shared by the claims about ranks\<close>

lemma foldl_dict:
  "foldl (\<lambda>d (k, v). d(k \<mapsto> v)) m ms = m ++ map_of (rev ms)"
proof (induction ms arbitrary: m)
  case Nil
  then show ?case by simp
next
  case (Cons x xs)
  obtain k v where x: "x = (k, v)" by (cases x)
  have "foldl (\<lambda>d (k, v). d(k \<mapsto> v)) m (x # xs) = foldl (\<lambda>d (k, v). d(k \<mapsto> v)) (m(k \<mapsto> v)) xs"
    by (simp only: x foldl_Cons prod.case)
  also have "\<dots> = m(k \<mapsto> v) ++ map_of (rev xs)"
    by (rule Cons.IH)
  also have "\<dots> = m ++ map_of (rev (x # xs))"
    by (simp add: x map_add_upd_left)
  finally show ?case .
qed

lemma value_dict_eq: "value_dict ms = map_of (rev ms)"
  by (simp add: value_dict_def foldl_dict)

lemma dom_value_dict: "dom (value_dict ms) = fst ` set ms"
  by (simp add: value_dict_eq dom_map_of_conv_image_fst)

lemma fst_medal_values: "fst ` set (medal_values field text) = fst ` set (finditer field text)"
  by (force simp: medal_values_def)

lemma all_codes_dom: "dom (golds w) \<union> dom (silvers w) \<union> dom (bronzes w) = all_codes w"
  by (simp add: all_codes_def Let_def golds_def silvers_def bronzes_def dom_value_dict
      fst_medal_values)

text \<open>Every set of codes can be visited: the hypothesis \<open>iterates\<close> excludes no wikitext.\<close>

lemma iteration_exists: "\<exists>visit. iterates visit (all_codes w)"
proof -
  let ?ks = "map fst (finditer ''gold_'' (strip_comments w))
        @ map fst (finditer ''silver_'' (strip_comments w))
        @ map fst (finditer ''bronze_'' (strip_comments w))"
  have "iterates (remdups ?ks) (all_codes w)"
    unfolding iterates_def all_codes_def Let_def by (simp add: Un_assoc)
  then show ?thesis ..
qed

lemma equal_rank_iff:
  assumes "i < length (parsed visit w)" and "j < length (parsed visit w)"
  shows "rank (parsed visit w ! i) = rank (parsed visit w ! j)
     \<longleftrightarrow> triple (parsed visit w ! i) = triple (parsed visit w ! j)"
proof
  let ?out = "parsed visit w"
  assume "rank (?out ! i) = rank (?out ! j)"
  then have "first_same ?out i = first_same ?out j"
    using assms by (simp add: rank_parsed)
  then show "triple (?out ! i) = triple (?out ! j)"
    using triple_first_same [OF assms(1)] triple_first_same [OF assms(2)] by simp
next
  let ?out = "parsed visit w"
  assume "triple (?out ! i) = triple (?out ! j)"
  then have "first_same ?out i = first_same ?out j"
    by (simp add: first_same_def)
  then show "rank (?out ! i) = rank (?out ! j)"
    using assms by (simp add: rank_parsed)
qed

lemma rank_mono_parsed:
  assumes "i \<le> j" and "j < length (parsed visit w)"
  shows "\<exists>r s. rank (parsed visit w ! i) = Some r
           \<and> rank (parsed visit w ! j) = Some s \<and> r \<le> s"
  using assms by (simp add: nth_parsed rank_of_mono)

lemma ties_contiguous_parsed:
  assumes "i \<le> k" "k \<le> j" "j < length (parsed visit w)"
    and "triple (parsed visit w ! i) = triple (parsed visit w ! j)"
  shows "triple (parsed visit w ! k) = triple (parsed visit w ! i)"
proof -
  have t: "triple (parsed visit w ! n) = triple (sorted_results IOC_CODES visit w ! n)"
    if "n < length (parsed visit w)" for n
    using that by (simp add: nth_parsed triple_def)
  show ?thesis
    using assms ties_contiguous [of i k j IOC_CODES visit w]
    by (simp add: t length_parsed)
qed

lemma ex3:
  "parse_medals [''C'', ''A'', ''B''] ''|gold_A=1|gold_B=1|silver_C=1'' =
   Inr [\<lparr>rank = Some 1, code = ''A'', country = ''A'', gold = 1, silver = 0, bronze = 0,
      total = 1\<rparr>,
    \<lparr>rank = Some 1, code = ''B'', country = ''B'', gold = 1, silver = 0, bronze = 0,
      total = 1\<rparr>,
    \<lparr>rank = Some 3, code = ''C'', country = ''C'', gold = 0, silver = 1, bronze = 0,
      total = 1\<rparr>]"
  by code_simp

lemma it3: "iterates [''C'', ''A'', ''B''] (all_codes ''|gold_A=1|gold_B=1|silver_C=1'')"
  unfolding iterates_def by code_simp

lemma ex_tie3:
  "parse_medals [''B'', ''C'', ''A''] ''|gold_A=1|gold_B=1|gold_C=1'' =
   Inr [\<lparr>rank = Some 1, code = ''A'', country = ''A'', gold = 1, silver = 0, bronze = 0,
      total = 1\<rparr>,
    \<lparr>rank = Some 1, code = ''B'', country = ''B'', gold = 1, silver = 0, bronze = 0,
      total = 1\<rparr>,
    \<lparr>rank = Some 1, code = ''C'', country = ''C'', gold = 1, silver = 0, bronze = 0,
      total = 1\<rparr>]"
  by code_simp

lemma it_tie3: "iterates [''B'', ''C'', ''A''] (all_codes ''|gold_A=1|gold_B=1|gold_C=1'')"
  unfolding iterates_def by code_simp

section \<open>Rank assignment\<close>

lemma parsed_rank_rule:
  "(parsed visit w \<noteq> [] \<longrightarrow> rank (parsed visit w ! 0) = Some 1) \<and>
   (\<forall>i. 0 < i \<and> i < length (parsed visit w) \<longrightarrow>
      (rank (parsed visit w ! i) = rank (parsed visit w ! (i - 1))
         \<longleftrightarrow> triple (parsed visit w ! i) = triple (parsed visit w ! (i - 1))) \<and>
      (triple (parsed visit w ! i) \<noteq> triple (parsed visit w ! (i - 1))
         \<longrightarrow> rank (parsed visit w ! i) = Some (int i + 1)))"
proof (intro conjI allI impI)
  assume "parsed visit w \<noteq> []"
  then have "0 < length (parsed visit w)" by simp
  then show "rank (parsed visit w ! 0) = Some 1"
    by (simp add: nth_parsed)
next
  fix i
  assume i: "0 < i \<and> i < length (parsed visit w)"
  then obtain j where j: "i = Suc j" by (cases i) auto
  let ?S = "sorted_results IOC_CODES visit w"
  have a: "parsed visit w ! i = ranked ?S (Suc j)"
    and b: "parsed visit w ! (i - 1) = ranked ?S j"
    using i j by (simp_all add: nth_parsed)
  show "rank (parsed visit w ! i) = rank (parsed visit w ! (i - 1))
         \<longleftrightarrow> triple (parsed visit w ! i) = triple (parsed visit w ! (i - 1))"
    unfolding a b using rank_of_le [of ?S j]
    by (auto simp: triple_def same_medals_def)
  show "rank (parsed visit w ! i) = Some (int i + 1)"
    if "triple (parsed visit w ! i) \<noteq> triple (parsed visit w ! (i - 1))"
    using that unfolding a b
    by (auto simp: triple_def same_medals_def j)
qed

text \<open>
  Claim C1. After the sort, the first entry of the list that \<open>parse_medals\<close> returns has
  rank 1. Every later entry has the rank of the entry just before it if and only if the
  two have the same (gold, silver, bronze) triple, and where the triples differ its rank
  is its position in the list, counted from 1.
\<close>

theorem rank_assignment:
  assumes "parse_medals visit w = Inr out"
  shows "(out \<noteq> [] \<longrightarrow> rank (out ! 0) = Some 1) \<and>
   (\<forall>i. 0 < i \<and> i < length out \<longrightarrow>
      (rank (out ! i) = rank (out ! (i - 1)) \<longleftrightarrow> triple (out ! i) = triple (out ! (i - 1))) \<and>
      (triple (out ! i) \<noteq> triple (out ! (i - 1)) \<longrightarrow> rank (out ! i) = Some (int i + 1)))"
  unfolding parse_medals_Inr [OF assms] by (rule parsed_rank_rule)

theorem rank_assignment_witness:
  "parse_medals [''C'', ''A'', ''B''] ''|gold_A=1|gold_B=1|silver_C=1'' =
   Inr [\<lparr>rank = Some 1, code = ''A'', country = ''A'', gold = 1, silver = 0, bronze = 0,
      total = 1\<rparr>,
    \<lparr>rank = Some 1, code = ''B'', country = ''B'', gold = 1, silver = 0, bronze = 0,
      total = 1\<rparr>,
    \<lparr>rank = Some 3, code = ''C'', country = ''C'', gold = 0, silver = 1, bronze = 0,
      total = 1\<rparr>]
   \<and> [\<lparr>rank = Some 1, code = ''A'', country = ''A'', gold = 1, silver = 0, bronze = 0,
      total = 1\<rparr>,
    \<lparr>rank = Some 1, code = ''B'', country = ''B'', gold = 1, silver = 0, bronze = 0,
      total = 1\<rparr>,
    \<lparr>rank = Some 3, code = ''C'', country = ''C'', gold = 0, silver = 1, bronze = 0,
      total = 1\<rparr>] \<noteq> []
   \<and> (0::nat) < 2
   \<and> 2 < length [\<lparr>rank = Some 1, code = ''A'', country = ''A'', gold = 1, silver = 0, bronze = 0,
      total = 1\<rparr>,
    \<lparr>rank = Some 1, code = ''B'', country = ''B'', gold = 1, silver = 0, bronze = 0,
      total = 1\<rparr>,
    \<lparr>rank = Some 3, code = ''C'', country = ''C'', gold = 0, silver = 1, bronze = 0,
      total = 1\<rparr>]
   \<and> triple ([\<lparr>rank = Some 1, code = ''A'', country = ''A'', gold = 1, silver = 0, bronze = 0,
      total = 1\<rparr>,
    \<lparr>rank = Some 1, code = ''B'', country = ''B'', gold = 1, silver = 0, bronze = 0,
      total = 1\<rparr>,
    \<lparr>rank = Some 3, code = ''C'', country = ''C'', gold = 0, silver = 1, bronze = 0,
      total = 1\<rparr>] ! 2)
     \<noteq> triple ([\<lparr>rank = Some 1, code = ''A'', country = ''A'', gold = 1, silver = 0, bronze = 0,
      total = 1\<rparr>,
    \<lparr>rank = Some 1, code = ''B'', country = ''B'', gold = 1, silver = 0, bronze = 0,
      total = 1\<rparr>,
    \<lparr>rank = Some 3, code = ''C'', country = ''C'', gold = 0, silver = 1, bronze = 0,
      total = 1\<rparr>] ! (2 - 1))
   \<and> rank ([\<lparr>rank = Some 1, code = ''A'', country = ''A'', gold = 1, silver = 0, bronze = 0,
      total = 1\<rparr>,
    \<lparr>rank = Some 1, code = ''B'', country = ''B'', gold = 1, silver = 0, bronze = 0,
      total = 1\<rparr>,
    \<lparr>rank = Some 3, code = ''C'', country = ''C'', gold = 0, silver = 1, bronze = 0,
      total = 1\<rparr>] ! 0) = Some 1
   \<and> rank ([\<lparr>rank = Some 1, code = ''A'', country = ''A'', gold = 1, silver = 0, bronze = 0,
      total = 1\<rparr>,
    \<lparr>rank = Some 1, code = ''B'', country = ''B'', gold = 1, silver = 0, bronze = 0,
      total = 1\<rparr>,
    \<lparr>rank = Some 3, code = ''C'', country = ''C'', gold = 0, silver = 1, bronze = 0,
      total = 1\<rparr>] ! 2) = Some (int 2 + 1)"
proof -
  let ?out = "[\<lparr>rank = Some 1, code = ''A'', country = ''A'', gold = 1, silver = 0, bronze = 0,
      total = 1\<rparr>,
    \<lparr>rank = Some 1, code = ''B'', country = ''B'', gold = 1, silver = 0, bronze = 0,
      total = 1\<rparr>,
    \<lparr>rank = Some 3, code = ''C'', country = ''C'', gold = 0, silver = 1, bronze = 0,
      total = 1\<rparr>]"
  have h1: "?out \<noteq> []"
    by simp
  have h2: "(0::nat) < 2 \<and> 2 < length ?out"
    by simp
  have h3: "triple (?out ! 2) \<noteq> triple (?out ! (2 - 1))"
    by (simp add: triple_def)
  from rank_assignment [OF ex3] h1 h2 h3
  have c: "rank (?out ! 0) = Some 1 \<and> rank (?out ! 2) = Some (int 2 + 1)"
    by blast
  show ?thesis
    using ex3 h1 h2 h3 c by blast
qed

section \<open>Ranks and ties\<close>

lemma parsed_rank_positions:
  "(\<forall>i. i < length (parsed visit w) \<longrightarrow>
       rank (parsed visit w ! i) = Some (int (first_same (parsed visit w) i) + 1)) \<and>
   (\<forall>i j. i < length (parsed visit w) \<and> j < length (parsed visit w) \<longrightarrow>
       (rank (parsed visit w ! i) = rank (parsed visit w ! j)
          \<longleftrightarrow> triple (parsed visit w ! i) = triple (parsed visit w ! j)))"
  using rank_parsed [of _ visit w] equal_rank_iff [of _ visit w] by blast

lemma parsed_rank_runs:
  "(\<forall>i j. i \<le> j \<and> j < length (parsed visit w) \<longrightarrow>
      (\<exists>r s. rank (parsed visit w ! i) = Some r
             \<and> rank (parsed visit w ! j) = Some s \<and> r \<le> s)) \<and>
   (\<forall>i j. i < length (parsed visit w) \<and> j < length (parsed visit w) \<longrightarrow>
      (rank (parsed visit w ! i) = rank (parsed visit w ! j)
         \<longleftrightarrow> triple (parsed visit w ! i) = triple (parsed visit w ! j))) \<and>
   (\<forall>i k j. i \<le> k \<and> k \<le> j \<and> j < length (parsed visit w)
        \<and> triple (parsed visit w ! i) = triple (parsed visit w ! j) \<longrightarrow>
      triple (parsed visit w ! k) = triple (parsed visit w ! i))"
proof (intro conjI allI impI)
  fix i j
  assume "i \<le> j \<and> j < length (parsed visit w)"
  then show "\<exists>r s. rank (parsed visit w ! i) = Some r
             \<and> rank (parsed visit w ! j) = Some s \<and> r \<le> s"
    by (intro rank_mono_parsed) simp_all
next
  fix i j
  assume "i < length (parsed visit w) \<and> j < length (parsed visit w)"
  then show "rank (parsed visit w ! i) = rank (parsed visit w ! j)
         \<longleftrightarrow> triple (parsed visit w ! i) = triple (parsed visit w ! j)"
    by (intro equal_rank_iff) simp_all
next
  fix i k j
  assume "i \<le> k \<and> k \<le> j \<and> j < length (parsed visit w)
        \<and> triple (parsed visit w ! i) = triple (parsed visit w ! j)"
  then show "triple (parsed visit w ! k) = triple (parsed visit w ! i)"
    by (intro ties_contiguous_parsed [of i k j]) simp_all
qed

text \<open>
  Claim C2, as stated, fails. With two codes tied for first place and a third code behind
  them, the ranks are 1, 1 and 3: there are two distinct triples, and the rank values are
  not the range from 1 to 2.
\<close>

theorem dense_ranks_counterexample:
  "iterates [''C'', ''A'', ''B''] (all_codes ''|gold_A=1|gold_B=1|silver_C=1'') \<and>
   parse_medals [''C'', ''A'', ''B''] ''|gold_A=1|gold_B=1|silver_C=1'' =
   Inr [\<lparr>rank = Some 1, code = ''A'', country = ''A'', gold = 1, silver = 0, bronze = 0,
      total = 1\<rparr>,
    \<lparr>rank = Some 1, code = ''B'', country = ''B'', gold = 1, silver = 0, bronze = 0,
      total = 1\<rparr>,
    \<lparr>rank = Some 3, code = ''C'', country = ''C'', gold = 0, silver = 1, bronze = 0,
      total = 1\<rparr>] \<and>
   rank ` set [\<lparr>rank = Some 1, code = ''A'', country = ''A'', gold = 1, silver = 0, bronze = 0,
      total = 1\<rparr>,
    \<lparr>rank = Some 1, code = ''B'', country = ''B'', gold = 1, silver = 0, bronze = 0,
      total = 1\<rparr>,
    \<lparr>rank = Some 3, code = ''C'', country = ''C'', gold = 0, silver = 1, bronze = 0,
      total = 1\<rparr>]
   \<noteq> Some ` {1 .. int (card (triple ` set
       [\<lparr>rank = Some 1, code = ''A'', country = ''A'', gold = 1, silver = 0, bronze = 0,
      total = 1\<rparr>,
    \<lparr>rank = Some 1, code = ''B'', country = ''B'', gold = 1, silver = 0, bronze = 0,
      total = 1\<rparr>,
    \<lparr>rank = Some 3, code = ''C'', country = ''C'', gold = 0, silver = 1, bronze = 0,
      total = 1\<rparr>]))}"
proof -
  let ?out = "[\<lparr>rank = Some 1, code = ''A'', country = ''A'', gold = 1, silver = 0, bronze = 0,
      total = 1\<rparr>,
    \<lparr>rank = Some 1, code = ''B'', country = ''B'', gold = 1, silver = 0, bronze = 0,
      total = 1\<rparr>,
    \<lparr>rank = Some 3, code = ''C'', country = ''C'', gold = 0, silver = 1, bronze = 0,
      total = 1\<rparr>]"
  have "Some 2 \<in> Some ` {1 .. int (card (triple ` set ?out))}"
    by (simp add: triple_def)
  moreover have "Some 2 \<notin> rank ` set ?out"
    by simp
  ultimately have "rank ` set ?out \<noteq> Some ` {1 .. int (card (triple ` set ?out))}"
    by metis
  then show ?thesis
    using it3 ex3 by simp
qed

text \<open>
  Claim C2, amended. Tied entries share a rank and there is one rank per distinct triple:
  two entries of the result have the same rank if and only if they have the same
  (gold, silver, bronze) triple. The rank of an entry is the position, counted from 1, of
  the first entry of the result that has its triple, so the rank numbers behind a group
  of tied entries are skipped.
\<close>

theorem competition_ranks:
  assumes "parse_medals visit w = Inr out"
  shows "(\<forall>i. i < length out \<longrightarrow> rank (out ! i) = Some (int (first_same out i) + 1)) \<and>
   (\<forall>i j. i < length out \<and> j < length out \<longrightarrow>
       (rank (out ! i) = rank (out ! j) \<longleftrightarrow> triple (out ! i) = triple (out ! j)))"
  unfolding parse_medals_Inr [OF assms] by (rule parsed_rank_positions)

theorem competition_ranks_witness:
  "parse_medals [''C'', ''A'', ''B''] ''|gold_A=1|gold_B=1|silver_C=1'' =
   Inr [\<lparr>rank = Some 1, code = ''A'', country = ''A'', gold = 1, silver = 0, bronze = 0,
      total = 1\<rparr>,
    \<lparr>rank = Some 1, code = ''B'', country = ''B'', gold = 1, silver = 0, bronze = 0,
      total = 1\<rparr>,
    \<lparr>rank = Some 3, code = ''C'', country = ''C'', gold = 0, silver = 1, bronze = 0,
      total = 1\<rparr>]
   \<and> (2::nat) < length [\<lparr>rank = Some 1, code = ''A'', country = ''A'', gold = 1, silver = 0, bronze = 0,
      total = 1\<rparr>,
    \<lparr>rank = Some 1, code = ''B'', country = ''B'', gold = 1, silver = 0, bronze = 0,
      total = 1\<rparr>,
    \<lparr>rank = Some 3, code = ''C'', country = ''C'', gold = 0, silver = 1, bronze = 0,
      total = 1\<rparr>]
   \<and> (0::nat) < length [\<lparr>rank = Some 1, code = ''A'', country = ''A'', gold = 1, silver = 0, bronze = 0,
      total = 1\<rparr>,
    \<lparr>rank = Some 1, code = ''B'', country = ''B'', gold = 1, silver = 0, bronze = 0,
      total = 1\<rparr>,
    \<lparr>rank = Some 3, code = ''C'', country = ''C'', gold = 0, silver = 1, bronze = 0,
      total = 1\<rparr>]
   \<and> (1::nat) < length [\<lparr>rank = Some 1, code = ''A'', country = ''A'', gold = 1, silver = 0, bronze = 0,
      total = 1\<rparr>,
    \<lparr>rank = Some 1, code = ''B'', country = ''B'', gold = 1, silver = 0, bronze = 0,
      total = 1\<rparr>,
    \<lparr>rank = Some 3, code = ''C'', country = ''C'', gold = 0, silver = 1, bronze = 0,
      total = 1\<rparr>]
   \<and> rank ([\<lparr>rank = Some 1, code = ''A'', country = ''A'', gold = 1, silver = 0, bronze = 0,
      total = 1\<rparr>,
    \<lparr>rank = Some 1, code = ''B'', country = ''B'', gold = 1, silver = 0, bronze = 0,
      total = 1\<rparr>,
    \<lparr>rank = Some 3, code = ''C'', country = ''C'', gold = 0, silver = 1, bronze = 0,
      total = 1\<rparr>] ! 2)
     = Some (int (first_same [\<lparr>rank = Some 1, code = ''A'', country = ''A'', gold = 1, silver = 0, bronze = 0,
      total = 1\<rparr>,
    \<lparr>rank = Some 1, code = ''B'', country = ''B'', gold = 1, silver = 0, bronze = 0,
      total = 1\<rparr>,
    \<lparr>rank = Some 3, code = ''C'', country = ''C'', gold = 0, silver = 1, bronze = 0,
      total = 1\<rparr>] 2) + 1)
   \<and> (rank ([\<lparr>rank = Some 1, code = ''A'', country = ''A'', gold = 1, silver = 0, bronze = 0,
      total = 1\<rparr>,
    \<lparr>rank = Some 1, code = ''B'', country = ''B'', gold = 1, silver = 0, bronze = 0,
      total = 1\<rparr>,
    \<lparr>rank = Some 3, code = ''C'', country = ''C'', gold = 0, silver = 1, bronze = 0,
      total = 1\<rparr>] ! 0)
        = rank ([\<lparr>rank = Some 1, code = ''A'', country = ''A'', gold = 1, silver = 0, bronze = 0,
      total = 1\<rparr>,
    \<lparr>rank = Some 1, code = ''B'', country = ''B'', gold = 1, silver = 0, bronze = 0,
      total = 1\<rparr>,
    \<lparr>rank = Some 3, code = ''C'', country = ''C'', gold = 0, silver = 1, bronze = 0,
      total = 1\<rparr>] ! 1)
      \<longleftrightarrow> triple ([\<lparr>rank = Some 1, code = ''A'', country = ''A'', gold = 1, silver = 0, bronze = 0,
      total = 1\<rparr>,
    \<lparr>rank = Some 1, code = ''B'', country = ''B'', gold = 1, silver = 0, bronze = 0,
      total = 1\<rparr>,
    \<lparr>rank = Some 3, code = ''C'', country = ''C'', gold = 0, silver = 1, bronze = 0,
      total = 1\<rparr>] ! 0)
        = triple ([\<lparr>rank = Some 1, code = ''A'', country = ''A'', gold = 1, silver = 0, bronze = 0,
      total = 1\<rparr>,
    \<lparr>rank = Some 1, code = ''B'', country = ''B'', gold = 1, silver = 0, bronze = 0,
      total = 1\<rparr>,
    \<lparr>rank = Some 3, code = ''C'', country = ''C'', gold = 0, silver = 1, bronze = 0,
      total = 1\<rparr>] ! 1))"
proof -
  let ?out = "[\<lparr>rank = Some 1, code = ''A'', country = ''A'', gold = 1, silver = 0, bronze = 0,
      total = 1\<rparr>,
    \<lparr>rank = Some 1, code = ''B'', country = ''B'', gold = 1, silver = 0, bronze = 0,
      total = 1\<rparr>,
    \<lparr>rank = Some 3, code = ''C'', country = ''C'', gold = 0, silver = 1, bronze = 0,
      total = 1\<rparr>]"
  have h: "(2::nat) < length ?out \<and> (0::nat) < length ?out \<and> (1::nat) < length ?out"
    by simp
  from competition_ranks [OF ex3] h
  have c: "rank (?out ! 2) = Some (int (first_same ?out 2) + 1)
      \<and> (rank (?out ! 0) = rank (?out ! 1) \<longleftrightarrow> triple (?out ! 0) = triple (?out ! 1))"
    by blast
  show ?thesis
    using ex3 h c by blast
qed

text \<open>
  Claim C3, as stated, fails. With three codes that have the same triple, the first and
  the third entry have the same rank and the same triple, and they are not next to
  each other.
\<close>

theorem equal_rank_adjacent_counterexample:
  "iterates [''B'', ''C'', ''A''] (all_codes ''|gold_A=1|gold_B=1|gold_C=1'') \<and>
   parse_medals [''B'', ''C'', ''A''] ''|gold_A=1|gold_B=1|gold_C=1'' =
   Inr [\<lparr>rank = Some 1, code = ''A'', country = ''A'', gold = 1, silver = 0, bronze = 0,
      total = 1\<rparr>,
    \<lparr>rank = Some 1, code = ''B'', country = ''B'', gold = 1, silver = 0, bronze = 0,
      total = 1\<rparr>,
    \<lparr>rank = Some 1, code = ''C'', country = ''C'', gold = 1, silver = 0, bronze = 0,
      total = 1\<rparr>] \<and>
   \<not> (rank ([\<lparr>rank = Some 1, code = ''A'', country = ''A'', gold = 1, silver = 0, bronze = 0,
      total = 1\<rparr>,
    \<lparr>rank = Some 1, code = ''B'', country = ''B'', gold = 1, silver = 0, bronze = 0,
      total = 1\<rparr>,
    \<lparr>rank = Some 1, code = ''C'', country = ''C'', gold = 1, silver = 0, bronze = 0,
      total = 1\<rparr>] ! 0)
        = rank ([\<lparr>rank = Some 1, code = ''A'', country = ''A'', gold = 1, silver = 0, bronze = 0,
      total = 1\<rparr>,
    \<lparr>rank = Some 1, code = ''B'', country = ''B'', gold = 1, silver = 0, bronze = 0,
      total = 1\<rparr>,
    \<lparr>rank = Some 1, code = ''C'', country = ''C'', gold = 1, silver = 0, bronze = 0,
      total = 1\<rparr>] ! 2)
      \<longleftrightarrow> triple ([\<lparr>rank = Some 1, code = ''A'', country = ''A'', gold = 1, silver = 0, bronze = 0,
      total = 1\<rparr>,
    \<lparr>rank = Some 1, code = ''B'', country = ''B'', gold = 1, silver = 0, bronze = 0,
      total = 1\<rparr>,
    \<lparr>rank = Some 1, code = ''C'', country = ''C'', gold = 1, silver = 0, bronze = 0,
      total = 1\<rparr>] ! 0)
          = triple ([\<lparr>rank = Some 1, code = ''A'', country = ''A'', gold = 1, silver = 0, bronze = 0,
      total = 1\<rparr>,
    \<lparr>rank = Some 1, code = ''B'', country = ''B'', gold = 1, silver = 0, bronze = 0,
      total = 1\<rparr>,
    \<lparr>rank = Some 1, code = ''C'', country = ''C'', gold = 1, silver = 0, bronze = 0,
      total = 1\<rparr>] ! 2)
        \<and> ((0::nat) + 1 = 2 \<or> (2::nat) + 1 = 0))"
  using it_tie3 ex_tie3 by simp

text \<open>
  Claim C3, amended. Along the list that \<open>parse_medals\<close> returns the rank never decreases.
  Two entries have the same rank if and only if they have the same (gold, silver, bronze)
  triple, and then every entry between them in the sort order has that triple too: the
  entries of one rank are a run of neighbours.
\<close>

theorem ranks_monotone:
  assumes "parse_medals visit w = Inr out"
  shows "(\<forall>i j. i \<le> j \<and> j < length out \<longrightarrow>
      (\<exists>r s. rank (out ! i) = Some r \<and> rank (out ! j) = Some s \<and> r \<le> s)) \<and>
   (\<forall>i j. i < length out \<and> j < length out \<longrightarrow>
      (rank (out ! i) = rank (out ! j) \<longleftrightarrow> triple (out ! i) = triple (out ! j))) \<and>
   (\<forall>i k j. i \<le> k \<and> k \<le> j \<and> j < length out \<and> triple (out ! i) = triple (out ! j) \<longrightarrow>
      triple (out ! k) = triple (out ! i))"
  unfolding parse_medals_Inr [OF assms] by (rule parsed_rank_runs)

theorem ranks_monotone_witness:
  "parse_medals [''B'', ''C'', ''A''] ''|gold_A=1|gold_B=1|gold_C=1'' =
   Inr [\<lparr>rank = Some 1, code = ''A'', country = ''A'', gold = 1, silver = 0, bronze = 0,
      total = 1\<rparr>,
    \<lparr>rank = Some 1, code = ''B'', country = ''B'', gold = 1, silver = 0, bronze = 0,
      total = 1\<rparr>,
    \<lparr>rank = Some 1, code = ''C'', country = ''C'', gold = 1, silver = 0, bronze = 0,
      total = 1\<rparr>]
   \<and> (0::nat) \<le> 2
   \<and> 2 < length [\<lparr>rank = Some 1, code = ''A'', country = ''A'', gold = 1, silver = 0, bronze = 0,
      total = 1\<rparr>,
    \<lparr>rank = Some 1, code = ''B'', country = ''B'', gold = 1, silver = 0, bronze = 0,
      total = 1\<rparr>,
    \<lparr>rank = Some 1, code = ''C'', country = ''C'', gold = 1, silver = 0, bronze = 0,
      total = 1\<rparr>]
   \<and> (0::nat) \<le> 1 \<and> (1::nat) \<le> 2
   \<and> (0::nat) < length [\<lparr>rank = Some 1, code = ''A'', country = ''A'', gold = 1, silver = 0, bronze = 0,
      total = 1\<rparr>,
    \<lparr>rank = Some 1, code = ''B'', country = ''B'', gold = 1, silver = 0, bronze = 0,
      total = 1\<rparr>,
    \<lparr>rank = Some 1, code = ''C'', country = ''C'', gold = 1, silver = 0, bronze = 0,
      total = 1\<rparr>]
   \<and> triple ([\<lparr>rank = Some 1, code = ''A'', country = ''A'', gold = 1, silver = 0, bronze = 0,
      total = 1\<rparr>,
    \<lparr>rank = Some 1, code = ''B'', country = ''B'', gold = 1, silver = 0, bronze = 0,
      total = 1\<rparr>,
    \<lparr>rank = Some 1, code = ''C'', country = ''C'', gold = 1, silver = 0, bronze = 0,
      total = 1\<rparr>] ! 0)
     = triple ([\<lparr>rank = Some 1, code = ''A'', country = ''A'', gold = 1, silver = 0, bronze = 0,
      total = 1\<rparr>,
    \<lparr>rank = Some 1, code = ''B'', country = ''B'', gold = 1, silver = 0, bronze = 0,
      total = 1\<rparr>,
    \<lparr>rank = Some 1, code = ''C'', country = ''C'', gold = 1, silver = 0, bronze = 0,
      total = 1\<rparr>] ! 2)
   \<and> (\<exists>r s. rank ([\<lparr>rank = Some 1, code = ''A'', country = ''A'', gold = 1, silver = 0, bronze = 0,
      total = 1\<rparr>,
    \<lparr>rank = Some 1, code = ''B'', country = ''B'', gold = 1, silver = 0, bronze = 0,
      total = 1\<rparr>,
    \<lparr>rank = Some 1, code = ''C'', country = ''C'', gold = 1, silver = 0, bronze = 0,
      total = 1\<rparr>] ! 0) = Some r
         \<and> rank ([\<lparr>rank = Some 1, code = ''A'', country = ''A'', gold = 1, silver = 0, bronze = 0,
      total = 1\<rparr>,
    \<lparr>rank = Some 1, code = ''B'', country = ''B'', gold = 1, silver = 0, bronze = 0,
      total = 1\<rparr>,
    \<lparr>rank = Some 1, code = ''C'', country = ''C'', gold = 1, silver = 0, bronze = 0,
      total = 1\<rparr>] ! 2) = Some s
         \<and> r \<le> s)
   \<and> rank ([\<lparr>rank = Some 1, code = ''A'', country = ''A'', gold = 1, silver = 0, bronze = 0,
      total = 1\<rparr>,
    \<lparr>rank = Some 1, code = ''B'', country = ''B'', gold = 1, silver = 0, bronze = 0,
      total = 1\<rparr>,
    \<lparr>rank = Some 1, code = ''C'', country = ''C'', gold = 1, silver = 0, bronze = 0,
      total = 1\<rparr>] ! 0)
     = rank ([\<lparr>rank = Some 1, code = ''A'', country = ''A'', gold = 1, silver = 0, bronze = 0,
      total = 1\<rparr>,
    \<lparr>rank = Some 1, code = ''B'', country = ''B'', gold = 1, silver = 0, bronze = 0,
      total = 1\<rparr>,
    \<lparr>rank = Some 1, code = ''C'', country = ''C'', gold = 1, silver = 0, bronze = 0,
      total = 1\<rparr>] ! 2)
   \<and> triple ([\<lparr>rank = Some 1, code = ''A'', country = ''A'', gold = 1, silver = 0, bronze = 0,
      total = 1\<rparr>,
    \<lparr>rank = Some 1, code = ''B'', country = ''B'', gold = 1, silver = 0, bronze = 0,
      total = 1\<rparr>,
    \<lparr>rank = Some 1, code = ''C'', country = ''C'', gold = 1, silver = 0, bronze = 0,
      total = 1\<rparr>] ! 1)
     = triple ([\<lparr>rank = Some 1, code = ''A'', country = ''A'', gold = 1, silver = 0, bronze = 0,
      total = 1\<rparr>,
    \<lparr>rank = Some 1, code = ''B'', country = ''B'', gold = 1, silver = 0, bronze = 0,
      total = 1\<rparr>,
    \<lparr>rank = Some 1, code = ''C'', country = ''C'', gold = 1, silver = 0, bronze = 0,
      total = 1\<rparr>] ! 0)"
proof -
  let ?out = "[\<lparr>rank = Some 1, code = ''A'', country = ''A'', gold = 1, silver = 0, bronze = 0,
      total = 1\<rparr>,
    \<lparr>rank = Some 1, code = ''B'', country = ''B'', gold = 1, silver = 0, bronze = 0,
      total = 1\<rparr>,
    \<lparr>rank = Some 1, code = ''C'', country = ''C'', gold = 1, silver = 0, bronze = 0,
      total = 1\<rparr>]"
  have h: "(0::nat) \<le> 2 \<and> 2 < length ?out \<and> (0::nat) \<le> 1 \<and> (1::nat) \<le> 2
      \<and> (0::nat) < length ?out \<and> triple (?out ! 0) = triple (?out ! 2)"
    by (simp add: triple_def)
  from ranks_monotone [OF ex_tie3] h
  have c: "(\<exists>r s. rank (?out ! 0) = Some r \<and> rank (?out ! 2) = Some s \<and> r \<le> s)
      \<and> rank (?out ! 0) = rank (?out ! 2) \<and> triple (?out ! 1) = triple (?out ! 0)"
    by blast
  show ?thesis
    using ex_tie3 h c by blast
qed

section \<open>Sort order and determinism\<close>

lemma map_code_parsed:
  "map code (parsed visit w) = map code (sorted_results IOC_CODES visit w)"
  by (rule nth_equalityI) (simp_all add: length_parsed nth_parsed)

lemma parsed_order_free:
  assumes "iterates v1 S" and "iterates v2 S"
  shows "parsed v1 w = parsed v2 w"
  using sorted_results_order_free [OF assms, of IOC_CODES w]
  by (simp add: parsed_eq)

lemma parsed_strictly_sorted:
  assumes "distinct visit" and "i < j" and "j < length (parsed visit w)"
  shows "gold (parsed visit w ! j) < gold (parsed visit w ! i)
    \<or> (gold (parsed visit w ! j) = gold (parsed visit w ! i)
        \<and> silver (parsed visit w ! j) < silver (parsed visit w ! i))
    \<or> (gold (parsed visit w ! j) = gold (parsed visit w ! i)
        \<and> silver (parsed visit w ! j) = silver (parsed visit w ! i)
        \<and> bronze (parsed visit w ! j) < bronze (parsed visit w ! i))
    \<or> (gold (parsed visit w ! j) = gold (parsed visit w ! i)
        \<and> silver (parsed visit w ! j) = silver (parsed visit w ! i)
        \<and> bronze (parsed visit w ! j) = bronze (parsed visit w ! i)
        \<and> code (parsed visit w ! i) < code (parsed visit w ! j))"
proof -
  let ?S = "sorted_results IOC_CODES visit w"
  have j: "j < length ?S" and i: "i < length ?S"
    using assms by (simp_all add: length_parsed)
  have "sort_tuple (?S ! i) < sort_tuple (?S ! j)"
    using assms(1,2) j by (rule keys_increase)
  then have "gold (?S ! j) < gold (?S ! i)
    \<or> (gold (?S ! j) = gold (?S ! i) \<and> silver (?S ! j) < silver (?S ! i))
    \<or> (gold (?S ! j) = gold (?S ! i) \<and> silver (?S ! j) = silver (?S ! i)
        \<and> bronze (?S ! j) < bronze (?S ! i))
    \<or> (gold (?S ! j) = gold (?S ! i) \<and> silver (?S ! j) = silver (?S ! i)
        \<and> bronze (?S ! j) = bronze (?S ! i) \<and> code (?S ! i) < code (?S ! j))"
    unfolding sort_tuple_def less_prod_simp by linarith
  then show ?thesis
    using i j by (simp add: nth_parsed length_parsed)
qed

lemma parsed_order_facts:
  assumes "iterates visit (all_codes w)"
  shows "(\<forall>i j. i < j \<and> j < length (parsed visit w) \<longrightarrow>
      gold (parsed visit w ! j) < gold (parsed visit w ! i)
    \<or> (gold (parsed visit w ! j) = gold (parsed visit w ! i)
        \<and> silver (parsed visit w ! j) < silver (parsed visit w ! i))
    \<or> (gold (parsed visit w ! j) = gold (parsed visit w ! i)
        \<and> silver (parsed visit w ! j) = silver (parsed visit w ! i)
        \<and> bronze (parsed visit w ! j) < bronze (parsed visit w ! i))
    \<or> (gold (parsed visit w ! j) = gold (parsed visit w ! i)
        \<and> silver (parsed visit w ! j) = silver (parsed visit w ! i)
        \<and> bronze (parsed visit w ! j) = bronze (parsed visit w ! i)
        \<and> code (parsed visit w ! i) < code (parsed visit w ! j)))
   \<and> distinct (map code (parsed visit w))
   \<and> (\<forall>visit'. iterates visit' (all_codes w) \<longrightarrow> parsed visit' w = parsed visit w)"
proof (intro conjI allI impI)
  have d: "distinct visit"
    using assms by (simp add: iterates_def)
  show "distinct (map code (parsed visit w))"
    using d by (simp add: map_code_parsed distinct_codes_sorted_results)
  fix i j
  assume "i < j \<and> j < length (parsed visit w)"
  then have ij: "i < j" and j: "j < length (parsed visit w)"
    by simp_all
  show "gold (parsed visit w ! j) < gold (parsed visit w ! i)
    \<or> (gold (parsed visit w ! j) = gold (parsed visit w ! i)
        \<and> silver (parsed visit w ! j) < silver (parsed visit w ! i))
    \<or> (gold (parsed visit w ! j) = gold (parsed visit w ! i)
        \<and> silver (parsed visit w ! j) = silver (parsed visit w ! i)
        \<and> bronze (parsed visit w ! j) < bronze (parsed visit w ! i))
    \<or> (gold (parsed visit w ! j) = gold (parsed visit w ! i)
        \<and> silver (parsed visit w ! j) = silver (parsed visit w ! i)
        \<and> bronze (parsed visit w ! j) = bronze (parsed visit w ! i)
        \<and> code (parsed visit w ! i) < code (parsed visit w ! j))"
    using d ij j by (rule parsed_strictly_sorted)
next
  fix visit'
  assume "iterates visit' (all_codes w)"
  then show "parsed visit' w = parsed visit w"
    using assms by (rule parsed_order_free)
qed

lemma ex_tie2:
  "parse_medals [''USA'', ''NOR'']
     ''| gold_NOR = 5 | silver_NOR = 2 | bronze_NOR = 1 | gold_USA = 5 | silver_USA = 2 | bronze_USA = 1'' =
   Inr [\<lparr>rank = Some 1, code = ''NOR'', country = ''Norway'', gold = 5, silver = 2,
      bronze = 1, total = 8\<rparr>,
    \<lparr>rank = Some 1, code = ''USA'', country = ''United States'', gold = 5, silver = 2,
      bronze = 1, total = 8\<rparr>]"
  by code_simp

lemma it_tie2:
  "iterates [''USA'', ''NOR'']
     (all_codes ''| gold_NOR = 5 | silver_NOR = 2 | bronze_NOR = 1 | gold_USA = 5 | silver_USA = 2 | bronze_USA = 1'')"
  "iterates [''NOR'', ''USA'']
     (all_codes ''| gold_NOR = 5 | silver_NOR = 2 | bronze_NOR = 1 | gold_USA = 5 | silver_USA = 2 | bronze_USA = 1'')"
  unfolding iterates_def by code_simp+

text \<open>
  Claim C4. The list that \<open>parse_medals\<close> returns is sorted by gold descending, then silver
  descending, then bronze descending, then code ascending: of two entries, the later one
  has fewer golds, or as many golds and fewer silvers, or as many golds and silvers and
  fewer bronzes, or the same triple and the greater code. The codes of the entries are
  pairwise different, so the order is total, and the result does not depend on the
  sequence in which the loop visits the set \<open>all_codes\<close>: any two such sequences give
  the same list.
\<close>

theorem sorted_and_deterministic:
  assumes "iterates visit (all_codes w)" and "parse_medals visit w = Inr out"
  shows "(\<forall>i j. i < j \<and> j < length out \<longrightarrow>
      gold (out ! j) < gold (out ! i)
    \<or> (gold (out ! j) = gold (out ! i) \<and> silver (out ! j) < silver (out ! i))
    \<or> (gold (out ! j) = gold (out ! i) \<and> silver (out ! j) = silver (out ! i)
        \<and> bronze (out ! j) < bronze (out ! i))
    \<or> (gold (out ! j) = gold (out ! i) \<and> silver (out ! j) = silver (out ! i)
        \<and> bronze (out ! j) = bronze (out ! i) \<and> code (out ! i) < code (out ! j)))
   \<and> distinct (map code out)
   \<and> (\<forall>visit'. iterates visit' (all_codes w) \<longrightarrow> parse_medals visit' w = Inr out)"
proof -
  have out: "out = parsed visit w" and conv: "convertible w"
    using assms(2) by (simp_all add: parse_medals_cases split: if_splits)
  note p = parsed_order_facts [OF assms(1), folded out]
  have "parse_medals visit' w = Inr out" if "iterates visit' (all_codes w)" for visit'
    using p that conv by (simp add: parse_medals_cases)
  then show ?thesis
    using p by blast
qed

theorem sorted_and_deterministic_witness:
  "iterates [''USA'', ''NOR'']
     (all_codes ''| gold_NOR = 5 | silver_NOR = 2 | bronze_NOR = 1 | gold_USA = 5 | silver_USA = 2 | bronze_USA = 1'')
   \<and> parse_medals [''USA'', ''NOR'']
       ''| gold_NOR = 5 | silver_NOR = 2 | bronze_NOR = 1 | gold_USA = 5 | silver_USA = 2 | bronze_USA = 1'' =
     Inr [\<lparr>rank = Some 1, code = ''NOR'', country = ''Norway'', gold = 5, silver = 2,
      bronze = 1, total = 8\<rparr>,
    \<lparr>rank = Some 1, code = ''USA'', country = ''United States'', gold = 5, silver = 2,
      bronze = 1, total = 8\<rparr>]
   \<and> iterates [''NOR'', ''USA'']
     (all_codes ''| gold_NOR = 5 | silver_NOR = 2 | bronze_NOR = 1 | gold_USA = 5 | silver_USA = 2 | bronze_USA = 1'')
   \<and> (0::nat) < 1
   \<and> 1 < length [\<lparr>rank = Some 1, code = ''NOR'', country = ''Norway'', gold = 5, silver = 2,
      bronze = 1, total = 8\<rparr>,
    \<lparr>rank = Some 1, code = ''USA'', country = ''United States'', gold = 5, silver = 2,
      bronze = 1, total = 8\<rparr>]
   \<and> parse_medals [''NOR'', ''USA'']
       ''| gold_NOR = 5 | silver_NOR = 2 | bronze_NOR = 1 | gold_USA = 5 | silver_USA = 2 | bronze_USA = 1'' =
     Inr [\<lparr>rank = Some 1, code = ''NOR'', country = ''Norway'', gold = 5, silver = 2,
      bronze = 1, total = 8\<rparr>,
    \<lparr>rank = Some 1, code = ''USA'', country = ''United States'', gold = 5, silver = 2,
      bronze = 1, total = 8\<rparr>]
   \<and> distinct (map code [\<lparr>rank = Some 1, code = ''NOR'', country = ''Norway'', gold = 5, silver = 2,
      bronze = 1, total = 8\<rparr>,
    \<lparr>rank = Some 1, code = ''USA'', country = ''United States'', gold = 5, silver = 2,
      bronze = 1, total = 8\<rparr>])
   \<and> code ([\<lparr>rank = Some 1, code = ''NOR'', country = ''Norway'', gold = 5, silver = 2,
      bronze = 1, total = 8\<rparr>,
    \<lparr>rank = Some 1, code = ''USA'', country = ''United States'', gold = 5, silver = 2,
      bronze = 1, total = 8\<rparr>] ! 0)
     < code ([\<lparr>rank = Some 1, code = ''NOR'', country = ''Norway'', gold = 5, silver = 2,
      bronze = 1, total = 8\<rparr>,
    \<lparr>rank = Some 1, code = ''USA'', country = ''United States'', gold = 5, silver = 2,
      bronze = 1, total = 8\<rparr>] ! 1)"
proof -
  let ?out = "[\<lparr>rank = Some 1, code = ''NOR'', country = ''Norway'', gold = 5, silver = 2,
      bronze = 1, total = 8\<rparr>,
    \<lparr>rank = Some 1, code = ''USA'', country = ''United States'', gold = 5, silver = 2,
      bronze = 1, total = 8\<rparr>]"
  have h: "(0::nat) < 1 \<and> 1 < length ?out"
    by simp
  note th = sorted_and_deterministic [OF it_tie2(1) ex_tie2]
  from th it_tie2(2)
  have c: "parse_medals [''NOR'', ''USA'']
       ''| gold_NOR = 5 | silver_NOR = 2 | bronze_NOR = 1 | gold_USA = 5 | silver_USA = 2 | bronze_USA = 1'' = Inr ?out
      \<and> distinct (map code ?out)"
    by blast
  from th h have "gold (?out ! 1) < gold (?out ! 0)
    \<or> (gold (?out ! 1) = gold (?out ! 0) \<and> silver (?out ! 1) < silver (?out ! 0))
    \<or> (gold (?out ! 1) = gold (?out ! 0) \<and> silver (?out ! 1) = silver (?out ! 0)
        \<and> bronze (?out ! 1) < bronze (?out ! 0))
    \<or> (gold (?out ! 1) = gold (?out ! 0) \<and> silver (?out ! 1) = silver (?out ! 0)
        \<and> bronze (?out ! 1) = bronze (?out ! 0) \<and> code (?out ! 0) < code (?out ! 1))"
    by blast
  then have o: "code (?out ! 0) < code (?out ! 1)"
    by simp
  show ?thesis
    using it_tie2 ex_tie2 h c o by blast
qed

section \<open>Totals\<close>

lemma digit_value_nonneg: "re_digit c \<Longrightarrow> 0 \<le> digit_value c"
  by (simp add: re_digit_def digit_value_def Let_def)

lemma foldl_digits_nonneg:
  "0 \<le> a \<Longrightarrow> \<forall>c \<in> set ds. re_digit c \<Longrightarrow>
   0 \<le> foldl (\<lambda>a c. 10 * a + digit_value c) a ds"
proof (induction ds arbitrary: a)
  case Nil
  then show ?case by simp
next
  case (Cons d ds)
  have "0 \<le> 10 * a + digit_value d"
    using Cons.prems digit_value_nonneg [of d] by simp
  then show ?case
    using Cons.prems by (simp add: Cons.IH)
qed

lemma decimal_nonneg: "0 \<le> decimal (takeWhile re_digit s)"
  unfolding decimal_def
  by (rule foldl_digits_nonneg) (auto dest: set_takeWhileD)

lemma match_medal_nonneg: "match_medal field s = Some (cd, ds, rest) \<Longrightarrow> 0 \<le> decimal ds"
  by (auto simp: match_medal_def Let_def decimal_nonneg
      split: list.splits if_splits option.splits)

lemma finditer_nonneg: "(cd, ds) \<in> set (finditer field s) \<Longrightarrow> 0 \<le> decimal ds"
proof (induction field s rule: finditer.induct)
  case (1 field)
  then show ?case by simp
next
  case (2 field c cs)
  show ?case
  proof (cases "match_medal field (c # cs)")
    case None
    then show ?thesis
      using 2 by simp
  next
    case (Some m)
    obtain cd' n' rest where m: "m = (cd', n', rest)"
      by (cases m)
    show ?thesis
      using 2 Some m match_medal_nonneg [of field "c # cs" cd' n' rest] by auto
  qed
qed

lemma medal_values_nonneg: "(cd, n) \<in> set (medal_values field s) \<Longrightarrow> 0 \<le> n"
  by (auto simp: medal_values_def dest: finditer_nonneg)

lemma value_dict_in: "value_dict ms k = Some v \<Longrightarrow> (k, v) \<in> set ms"
  by (auto simp: value_dict_eq dest: map_of_SomeD)

lemma get_dict_nonneg: "0 \<le> get (value_dict (medal_values field s)) c 0"
  by (auto simp: get_def split: option.splits dest!: value_dict_in medal_values_nonneg)

lemma medal_sum_nonneg: "0 \<le> medal_sum w c"
  by (simp add: medal_sum_def golds_def silvers_def bronzes_def get_dict_nonneg)

lemma in_parsed:
  assumes "e \<in> set (parsed visit w)"
  shows "\<exists>c. c \<in> set visit \<and> medal_sum w c \<noteq> 0 \<and> code e = c
           \<and> gold e = get (golds w) c 0 \<and> silver e = get (silvers w) c 0
           \<and> bronze e = get (bronzes w) c 0 \<and> total e = medal_sum w c
           \<and> country e = get IOC_CODES c c"
proof -
  let ?S = "sorted_results IOC_CODES visit w"
  from assms obtain i where i: "i < length ?S" and e: "e = ranked ?S i"
    by (auto simp: parsed_eq)
  have "?S ! i \<in> set ?S"
    using i by simp
  then obtain c where "c \<in> set visit" "medal_sum w c \<noteq> 0" "?S ! i = make_entry IOC_CODES w c"
    by (auto simp: set_sorted_results)
  then show ?thesis
    by (intro exI [of _ c]) (simp add: e)
qed

lemma parsed_totals:
  "(\<forall>e \<in> set (parsed visit w). total e = gold e + silver e + bronze e \<and> 0 < total e) \<and>
   (\<forall>c. get (golds w) c 0 + get (silvers w) c 0 + get (bronzes w) c 0 = 0 \<longrightarrow>
        c \<notin> code ` set (parsed visit w))"
proof (intro conjI ballI allI impI)
  fix e
  assume "e \<in> set (parsed visit w)"
  then obtain c where c: "medal_sum w c \<noteq> 0" "gold e = get (golds w) c 0"
      "silver e = get (silvers w) c 0" "bronze e = get (bronzes w) c 0" "total e = medal_sum w c"
    using in_parsed by blast
  show "total e = gold e + silver e + bronze e"
    using c by (simp add: medal_sum_def)
  show "0 < total e"
    using c medal_sum_nonneg [of w c] by simp
next
  fix c
  assume z: "get (golds w) c 0 + get (silvers w) c 0 + get (bronzes w) c 0 = 0"
  show "c \<notin> code ` set (parsed visit w)"
  proof
    assume "c \<in> code ` set (parsed visit w)"
    then obtain e where "e \<in> set (parsed visit w)" "code e = c"
      by auto
    then have "medal_sum w c \<noteq> 0"
      using in_parsed by blast
    then show False
      using z by (simp add: medal_sum_def)
  qed
qed

lemma dicts_of_parse:
  assumes "parse_medals visit w = Inr out"
  shows "dict_of (finditer ''gold_'' (strip_comments w)) = Inr (golds w)"
    and "dict_of (finditer ''silver_'' (strip_comments w)) = Inr (silvers w)"
    and "dict_of (finditer ''bronze_'' (strip_comments w)) = Inr (bronzes w)"
proof -
  have "convertible w"
    using assms by (simp add: parse_medals_cases split: if_splits)
  then show "dict_of (finditer ''gold_'' (strip_comments w)) = Inr (golds w)"
    and "dict_of (finditer ''silver_'' (strip_comments w)) = Inr (silvers w)"
    and "dict_of (finditer ''bronze_'' (strip_comments w)) = Inr (bronzes w)"
    by (simp_all add: convertible_def Let_def dict_of_cases golds_def silvers_def bronzes_def)
qed

lemma ex_zero:
  "parse_medals [''XXX'', ''NOR'']
     ''| gold_XXX = 0 | silver_XXX = 0 | bronze_XXX = 0 | gold_NOR = 1'' =
   Inr [\<lparr>rank = Some 1, code = ''NOR'', country = ''Norway'', gold = 1, silver = 0,
      bronze = 0, total = 1\<rparr>]"
  by code_simp

lemma ex_zero_dicts:
  "dict_of (finditer ''gold_'' (strip_comments ''| gold_XXX = 0 | silver_XXX = 0 | bronze_XXX = 0 | gold_NOR = 1''))
   = Inr (golds ''| gold_XXX = 0 | silver_XXX = 0 | bronze_XXX = 0 | gold_NOR = 1'')"
  "dict_of (finditer ''silver_'' (strip_comments ''| gold_XXX = 0 | silver_XXX = 0 | bronze_XXX = 0 | gold_NOR = 1''))
   = Inr (silvers ''| gold_XXX = 0 | silver_XXX = 0 | bronze_XXX = 0 | gold_NOR = 1'')"
  "dict_of (finditer ''bronze_'' (strip_comments ''| gold_XXX = 0 | silver_XXX = 0 | bronze_XXX = 0 | gold_NOR = 1''))
   = Inr (bronzes ''| gold_XXX = 0 | silver_XXX = 0 | bronze_XXX = 0 | gold_NOR = 1'')"
  using dicts_of_parse [OF ex_zero] by simp_all

lemma ex_zero_sum:
  "get (golds ''| gold_XXX = 0 | silver_XXX = 0 | bronze_XXX = 0 | gold_NOR = 1'') ''XXX'' 0
   + get (silvers ''| gold_XXX = 0 | silver_XXX = 0 | bronze_XXX = 0 | gold_NOR = 1'') ''XXX'' 0
   + get (bronzes ''| gold_XXX = 0 | silver_XXX = 0 | bronze_XXX = 0 | gold_NOR = 1'') ''XXX'' 0
   = 0"
  by code_simp

text \<open>
  Claim C5. Every entry of the list that \<open>parse_medals\<close> returns has
  \<open>total = gold + silver + bronze\<close> and \<open>total > 0\<close>, and a code whose gold, silver and
  bronze values in the three dicts (0 where the dict has no such key) add up to 0 is the
  code of no entry of the list.
\<close>

theorem totals_positive:
  assumes "parse_medals visit w = Inr out"
  shows "(\<forall>e \<in> set out. total e = gold e + silver e + bronze e \<and> 0 < total e) \<and>
   (\<forall>g s b c.
        dict_of (finditer ''gold_'' (strip_comments w)) = Inr g
        \<and> dict_of (finditer ''silver_'' (strip_comments w)) = Inr s
        \<and> dict_of (finditer ''bronze_'' (strip_comments w)) = Inr b
        \<and> get g c 0 + get s c 0 + get b c 0 = 0 \<longrightarrow>
        c \<notin> code ` set out)"
proof -
  note p = parsed_totals [of visit w, folded parse_medals_Inr [OF assms]]
  note d = dicts_of_parse [OF assms]
  have "c \<notin> code ` set out"
    if "dict_of (finditer ''gold_'' (strip_comments w)) = Inr g
        \<and> dict_of (finditer ''silver_'' (strip_comments w)) = Inr s
        \<and> dict_of (finditer ''bronze_'' (strip_comments w)) = Inr b
        \<and> get g c 0 + get s c 0 + get b c 0 = 0" for g s b c
  proof -
    from that d have "g = golds w" "s = silvers w" "b = bronzes w"
      by simp_all
    then show ?thesis
      using that p by blast
  qed
  then show ?thesis
    using p by blast
qed

theorem totals_positive_witness:
  "parse_medals [''XXX'', ''NOR'']
     ''| gold_XXX = 0 | silver_XXX = 0 | bronze_XXX = 0 | gold_NOR = 1'' =
   Inr [\<lparr>rank = Some 1, code = ''NOR'', country = ''Norway'', gold = 1, silver = 0,
      bronze = 0, total = 1\<rparr>]
   \<and> \<lparr>rank = Some 1, code = ''NOR'', country = ''Norway'', gold = 1, silver = 0,
      bronze = 0, total = 1\<rparr>
     \<in> set [\<lparr>rank = Some 1, code = ''NOR'', country = ''Norway'', gold = 1, silver = 0,
      bronze = 0, total = 1\<rparr>]
   \<and> dict_of (finditer ''gold_'' (strip_comments ''| gold_XXX = 0 | silver_XXX = 0 | bronze_XXX = 0 | gold_NOR = 1''))
     = Inr (golds ''| gold_XXX = 0 | silver_XXX = 0 | bronze_XXX = 0 | gold_NOR = 1'')
   \<and> dict_of (finditer ''silver_'' (strip_comments ''| gold_XXX = 0 | silver_XXX = 0 | bronze_XXX = 0 | gold_NOR = 1''))
     = Inr (silvers ''| gold_XXX = 0 | silver_XXX = 0 | bronze_XXX = 0 | gold_NOR = 1'')
   \<and> dict_of (finditer ''bronze_'' (strip_comments ''| gold_XXX = 0 | silver_XXX = 0 | bronze_XXX = 0 | gold_NOR = 1''))
     = Inr (bronzes ''| gold_XXX = 0 | silver_XXX = 0 | bronze_XXX = 0 | gold_NOR = 1'')
   \<and> get (golds ''| gold_XXX = 0 | silver_XXX = 0 | bronze_XXX = 0 | gold_NOR = 1'') ''XXX'' 0
     + get (silvers ''| gold_XXX = 0 | silver_XXX = 0 | bronze_XXX = 0 | gold_NOR = 1'') ''XXX'' 0
     + get (bronzes ''| gold_XXX = 0 | silver_XXX = 0 | bronze_XXX = 0 | gold_NOR = 1'') ''XXX'' 0
     = 0
   \<and> ''XXX'' \<notin> code ` set [\<lparr>rank = Some 1, code = ''NOR'', country = ''Norway'', gold = 1, silver = 0,
      bronze = 0, total = 1\<rparr>]
   \<and> total \<lparr>rank = Some 1, code = ''NOR'', country = ''Norway'', gold = 1, silver = 0,
      bronze = 0, total = 1\<rparr>
     = gold \<lparr>rank = Some 1, code = ''NOR'', country = ''Norway'', gold = 1, silver = 0,
      bronze = 0, total = 1\<rparr>
     + silver \<lparr>rank = Some 1, code = ''NOR'', country = ''Norway'', gold = 1, silver = 0,
      bronze = 0, total = 1\<rparr>
     + bronze \<lparr>rank = Some 1, code = ''NOR'', country = ''Norway'', gold = 1, silver = 0,
      bronze = 0, total = 1\<rparr>
   \<and> 0 < total \<lparr>rank = Some 1, code = ''NOR'', country = ''Norway'', gold = 1, silver = 0,
      bronze = 0, total = 1\<rparr>"
proof -
  let ?e = "\<lparr>rank = Some 1, code = ''NOR'', country = ''Norway'', gold = 1, silver = 0,
      bronze = 0, total = 1\<rparr>"
  have h: "?e \<in> set [?e]"
    by simp
  note th = totals_positive [OF ex_zero]
  from th h have c1: "total ?e = gold ?e + silver ?e + bronze ?e \<and> 0 < total ?e"
    by blast
  from th ex_zero_dicts ex_zero_sum have c2: "''XXX'' \<notin> code ` set [?e]"
    by blast
  show ?thesis
    using ex_zero h ex_zero_dicts ex_zero_sum c1 c2 by blast
qed

section \<open>Duplicate matches\<close>

lemma value_dict_last:
  "c \<notin> fst ` set after \<Longrightarrow> value_dict (before @ (c, v) # after) c = Some v"
proof -
  assume "c \<notin> fst ` set after"
  then have "map_of (rev after) c = None"
    by (simp add: map_of_eq_None_iff)
  then show ?thesis
    by (simp add: value_dict_eq map_add_def)
qed

lemma gold_of_entry:
  "e \<in> set (parsed visit w) \<Longrightarrow> gold e = get (golds w) (code e) 0"
  using in_parsed by fastforce

lemma silver_of_entry:
  "e \<in> set (parsed visit w) \<Longrightarrow> silver e = get (silvers w) (code e) 0"
  using in_parsed by fastforce

lemma bronze_of_entry:
  "e \<in> set (parsed visit w) \<Longrightarrow> bronze e = get (bronzes w) (code e) 0"
  using in_parsed by fastforce

lemma last_value:
  assumes "finditer field text = before @ (c, ds) # after" and "c \<notin> fst ` set after"
  shows "value_dict (medal_values field text) c = Some (decimal ds)"
proof -
  let ?f = "\<lambda>(c, ds). (c, decimal ds)"
  have mv: "medal_values field text = map ?f before @ (c, decimal ds) # map ?f after"
    by (simp add: medal_values_def assms(1))
  have nin: "c \<notin> fst ` set (map ?f after)"
    using assms(2) by force
  show ?thesis
    unfolding mv by (rule value_dict_last [OF nin])
qed

lemma last_digits:
  assumes "within_limit (finditer field text)"
    and "finditer field text = before @ (c, ds) # after"
  shows "int_of_digits ds = Inr (decimal ds)"
  using assms by (simp add: within_limit_def int_of_digits_def)

lemma ex_dup:
  "parse_medals [''A''] ''|gold_A=1|gold_A=2'' =
   Inr [\<lparr>rank = Some 1, code = ''A'', country = ''A'', gold = 2, silver = 0,
      bronze = 0, total = 2\<rparr>]"
  by code_simp

lemma ex_dup_matches:
  "finditer ''gold_'' (strip_comments ''|gold_A=1|gold_A=2'') = [(''A'', ''1'')] @ (''A'', ''2'') # []"
  by code_simp

lemma ex_dup_value: "decimal ''2'' = 2"
  by code_simp

text \<open>
  Claim C6. For each of the three patterns, when the text without comments has several
  matches for one code, the dict holds the integer of the last of them in the text (it
  is overwritten, not added up): if a match of code \<open>c\<close> with the digits \<open>ds\<close> is followed
  by no further match of \<open>c\<close>, then the dict maps \<open>c\<close> to \<open>int(ds)\<close>, and an entry of the
  result with code \<open>c\<close> has that value.
\<close>

theorem last_match_wins:
  assumes "parse_medals visit w = Inr out"
  shows "(\<forall>before c ds after.
      finditer ''gold_'' (strip_comments w) = before @ (c, ds) # after \<and> c \<notin> fst ` set after \<longrightarrow>
      (\<exists>d v. dict_of (finditer ''gold_'' (strip_comments w)) = Inr d \<and> int_of_digits ds = Inr v
           \<and> d c = Some v \<and> (\<forall>e \<in> set out. code e = c \<longrightarrow> gold e = v))) \<and>
   (\<forall>before c ds after.
      finditer ''silver_'' (strip_comments w) = before @ (c, ds) # after \<and> c \<notin> fst ` set after \<longrightarrow>
      (\<exists>d v. dict_of (finditer ''silver_'' (strip_comments w)) = Inr d \<and> int_of_digits ds = Inr v
           \<and> d c = Some v \<and> (\<forall>e \<in> set out. code e = c \<longrightarrow> silver e = v))) \<and>
   (\<forall>before c ds after.
      finditer ''bronze_'' (strip_comments w) = before @ (c, ds) # after \<and> c \<notin> fst ` set after \<longrightarrow>
      (\<exists>d v. dict_of (finditer ''bronze_'' (strip_comments w)) = Inr d \<and> int_of_digits ds = Inr v
           \<and> d c = Some v \<and> (\<forall>e \<in> set out. code e = c \<longrightarrow> bronze e = v)))"
proof -
  have out: "out = parsed visit w" and conv: "convertible w"
    using assms by (simp_all add: parse_medals_cases split: if_splits)
  note d = dicts_of_parse [OF assms]
  have wl: "within_limit (finditer ''gold_'' (strip_comments w))"
    "within_limit (finditer ''silver_'' (strip_comments w))"
    "within_limit (finditer ''bronze_'' (strip_comments w))"
    using conv by (simp_all add: convertible_def Let_def)
  show ?thesis
  proof (intro conjI allI impI)
    fix before c ds after
    assume a: "finditer ''gold_'' (strip_comments w) = before @ (c, ds) # after
        \<and> c \<notin> fst ` set after"
    then have a1: "finditer ''gold_'' (strip_comments w) = before @ (c, ds) # after"
      and a2: "c \<notin> fst ` set after"
      by simp_all
    have g: "golds w c = Some (decimal ds)"
      unfolding golds_def using a1 a2 by (rule last_value)
    have "\<forall>e \<in> set out. code e = c \<longrightarrow> gold e = decimal ds"
      using g gold_of_entry [of _ visit w] by (auto simp: out get_def)
    then show "\<exists>d v. dict_of (finditer ''gold_'' (strip_comments w)) = Inr d
        \<and> int_of_digits ds = Inr v \<and> d c = Some v
        \<and> (\<forall>e \<in> set out. code e = c \<longrightarrow> gold e = v)"
      using d(1) g last_digits [OF wl(1) a1] by blast
  next
    fix before c ds after
    assume a: "finditer ''silver_'' (strip_comments w) = before @ (c, ds) # after
        \<and> c \<notin> fst ` set after"
    then have a1: "finditer ''silver_'' (strip_comments w) = before @ (c, ds) # after"
      and a2: "c \<notin> fst ` set after"
      by simp_all
    have g: "silvers w c = Some (decimal ds)"
      unfolding silvers_def using a1 a2 by (rule last_value)
    have "\<forall>e \<in> set out. code e = c \<longrightarrow> silver e = decimal ds"
      using g silver_of_entry [of _ visit w] by (auto simp: out get_def)
    then show "\<exists>d v. dict_of (finditer ''silver_'' (strip_comments w)) = Inr d
        \<and> int_of_digits ds = Inr v \<and> d c = Some v
        \<and> (\<forall>e \<in> set out. code e = c \<longrightarrow> silver e = v)"
      using d(2) g last_digits [OF wl(2) a1] by blast
  next
    fix before c ds after
    assume a: "finditer ''bronze_'' (strip_comments w) = before @ (c, ds) # after
        \<and> c \<notin> fst ` set after"
    then have a1: "finditer ''bronze_'' (strip_comments w) = before @ (c, ds) # after"
      and a2: "c \<notin> fst ` set after"
      by simp_all
    have g: "bronzes w c = Some (decimal ds)"
      unfolding bronzes_def using a1 a2 by (rule last_value)
    have "\<forall>e \<in> set out. code e = c \<longrightarrow> bronze e = decimal ds"
      using g bronze_of_entry [of _ visit w] by (auto simp: out get_def)
    then show "\<exists>d v. dict_of (finditer ''bronze_'' (strip_comments w)) = Inr d
        \<and> int_of_digits ds = Inr v \<and> d c = Some v
        \<and> (\<forall>e \<in> set out. code e = c \<longrightarrow> bronze e = v)"
      using d(3) g last_digits [OF wl(3) a1] by blast
  qed
qed

theorem last_match_wins_witness:
  "parse_medals [''A''] ''|gold_A=1|gold_A=2'' =
   Inr [\<lparr>rank = Some 1, code = ''A'', country = ''A'', gold = 2, silver = 0,
      bronze = 0, total = 2\<rparr>]
   \<and> finditer ''gold_'' (strip_comments ''|gold_A=1|gold_A=2'') = [(''A'', ''1'')] @ (''A'', ''2'') # []
   \<and> ''A'' \<notin> fst ` set ([] :: (string \<times> string) list)
   \<and> \<lparr>rank = Some 1, code = ''A'', country = ''A'', gold = 2, silver = 0,
      bronze = 0, total = 2\<rparr>
     \<in> set [\<lparr>rank = Some 1, code = ''A'', country = ''A'', gold = 2, silver = 0,
      bronze = 0, total = 2\<rparr>]
   \<and> int_of_digits ''2'' = Inr 2
   \<and> (\<exists>d. dict_of (finditer ''gold_'' (strip_comments ''|gold_A=1|gold_A=2'')) = Inr d \<and> d ''A'' = Some 2)
   \<and> gold \<lparr>rank = Some 1, code = ''A'', country = ''A'', gold = 2, silver = 0,
      bronze = 0, total = 2\<rparr> = 2"
proof -
  let ?e = "\<lparr>rank = Some 1, code = ''A'', country = ''A'', gold = 2, silver = 0,
      bronze = 0, total = 2\<rparr>"
  have h1: "''A'' \<notin> fst ` set ([] :: (string \<times> string) list)"
    by simp
  have h2: "?e \<in> set [?e]" and h3: "code ?e = ''A''"
    by simp_all
  have i2: "int_of_digits ''2'' = Inr 2"
    by code_simp
  note lm = last_match_wins [OF ex_dup, THEN conjunct1, rule_format,
      of "[(''A'', ''1'')]" "''A''" "''2''" "[]"]
  have "\<exists>d v. dict_of (finditer ''gold_'' (strip_comments ''|gold_A=1|gold_A=2'')) = Inr d
      \<and> int_of_digits ''2'' = Inr v \<and> d ''A'' = Some v
      \<and> (\<forall>e \<in> set [?e]. code e = ''A'' \<longrightarrow> gold e = v)"
    by (rule lm) (rule conjI [OF ex_dup_matches h1])
  then obtain d v where g: "dict_of (finditer ''gold_'' (strip_comments ''|gold_A=1|gold_A=2'')) = Inr d"
      "int_of_digits ''2'' = Inr v" "d ''A'' = Some v"
      "\<forall>e \<in> set [?e]. code e = ''A'' \<longrightarrow> gold e = v"
    by blast
  from g(2) i2 have v: "v = 2"
    by simp
  from g(1,3) v have c1: "\<exists>d. dict_of (finditer ''gold_'' (strip_comments ''|gold_A=1|gold_A=2'')) = Inr d
      \<and> d ''A'' = Some 2"
    by blast
  from g(4) h2 h3 v have c2: "gold ?e = 2"
    by blast
  show ?thesis
    using ex_dup ex_dup_matches h1 h2 i2 c1 c2 by blast
qed

section \<open>The report: filter and limit\<close>













section \<open>The exit status\<close>














section \<open>The report and the widget\<close>

lemma rank_step_widget_eq: "rank_step_widget = rank_step"
  by (simp add: fun_eq_iff rank_step_widget_def rank_step_def)

lemma collect_widget_eq:
  "collect_widget (golds w) (silvers w) (bronzes w) cs =
   map (make_entry IOC_CODES_widget w) (filter (\<lambda>c. medal_sum w c \<noteq> 0) cs)"
  by (induction cs) (simp_all add: Let_def make_entry_def medal_sum_def)

lemma parsed_widget_eq:
  "parsed_widget visit w =
   map (ranked (sorted_results IOC_CODES_widget visit w))
     [0..<length (sorted_results IOC_CODES_widget visit w)]"
  by (simp add: parsed_widget_def Let_def rank_step_widget_eq
      assign_ranks_eq [unfolded assign_ranks_def] sorted_results_def collect_widget_eq)

lemma fetch_medals_cases:
  "fetch_medals visit (Returned (Str w)) =
   (if convertible w then Inr (Some (parsed_widget visit w)) else Inl ValueError)"
  by (simp add: fetch_medals_def dict_of_cases convertible_def parsed_widget_def Let_def
      golds_def silvers_def bronzes_def)

lemma erase_make_entry:
  "erase_country (make_entry names w c) = erase_country (make_entry names' w c)"
  by (simp add: erase_country_def make_entry_def)

lemma sort_tuple_erase [simp]: "sort_tuple (erase_country e) = sort_tuple e"
  by (simp add: erase_country_def sort_tuple_def)

lemma erased_results_agree:
  assumes "iterates v1 S" and "iterates v2 S"
  shows "map erase_country (sorted_results names v1 w)
       = map erase_country (sorted_results names' v2 w)"
proof (rule sorted_by_key_unique)
  have "erase_country ` make_entry names w ` A = erase_country ` make_entry names' w ` A" for A
    unfolding image_image using erase_make_entry [of names w _ names'] by simp
  then show "set (map erase_country (sorted_results names v1 w))
      = set (map erase_country (sorted_results names' v2 w))"
    using assms by (simp add: set_sorted_results iterates_def)
qed (use assms in \<open>simp_all add: comp_def iterates_def sorted_keys_sorted_results
      distinct_keys_sorted_results\<close>)

lemma rank_of_cong:
  "map triple xs = map triple ys \<Longrightarrow> i < length xs \<Longrightarrow> rank_of xs i = rank_of ys i"
proof (induction i)
  case 0
  then show ?case by simp
next
  case (Suc i)
  have len: "length xs = length ys"
    using Suc.prems(1) by (rule map_eq_imp_length_eq)
  have t: "triple (xs ! k) = triple (ys ! k)" if "k < length xs" for k
    using that Suc.prems(1) len by (metis nth_map)
  have "same_medals (xs ! Suc i) (xs ! i) = same_medals (ys ! Suc i) (ys ! i)"
    using t [of i] t [of "Suc i"] Suc.prems(2) by (simp add: same_medals_triple)
  then show ?case
    using Suc by simp
qed

lemma triple_erase [simp]: "triple (erase_country e) = triple e"
  by (simp add: erase_country_def triple_def)

lemma names_agree:
  "c \<noteq> ''AIN'' \<Longrightarrow> c \<noteq> ''BIH'' \<Longrightarrow> get IOC_CODES c c = get IOC_CODES_widget c c"
  by (simp add: get_def IOC_CODES_def IOC_CODES_widget_def IOC_CODES_table_def
      IOC_CODES_widget_table_def)

lemma names_differ:
  "get IOC_CODES ''AIN'' ''AIN'' = ''Individual Neutral Athletes''"
  "get IOC_CODES_widget ''AIN'' ''AIN'' = ''Neutral Athletes''"
  "get IOC_CODES ''BIH'' ''BIH'' = ''Bosnia and Herzegovina''"
  "get IOC_CODES_widget ''BIH'' ''BIH'' = ''Bosnia & Herzegovina''"
  by (simp_all add: get_def IOC_CODES_def IOC_CODES_widget_def IOC_CODES_table_def
      IOC_CODES_widget_table_def)

lemma country_sorted_results:
  "i < length (sorted_results names v w) \<Longrightarrow>
   country (sorted_results names v w ! i)
   = get names (code (sorted_results names v w ! i)) (code (sorted_results names v w ! i))"
proof -
  assume "i < length (sorted_results names v w)"
  then have "sorted_results names v w ! i \<in> set (sorted_results names v w)"
    by simp
  then show ?thesis
    by (auto simp: set_sorted_results)
qed

lemma parsed_agree:
  assumes "iterates v1 (all_codes w)" and "iterates v2 (all_codes w)"
  shows "\<exists>out. parsed_widget v2 w = out
     \<and> length out = length (parsed v1 w)
     \<and> (\<forall>i < length out.
          code (out ! i) = code (parsed v1 w ! i)
          \<and> gold (out ! i) = gold (parsed v1 w ! i)
          \<and> silver (out ! i) = silver (parsed v1 w ! i)
          \<and> bronze (out ! i) = bronze (parsed v1 w ! i)
          \<and> total (out ! i) = total (parsed v1 w ! i)
          \<and> rank (out ! i) = rank (parsed v1 w ! i)
          \<and> (code (out ! i) \<noteq> ''AIN'' \<and> code (out ! i) \<noteq> ''BIH''
               \<longrightarrow> country (out ! i) = country (parsed v1 w ! i)))"
proof -
  let ?S1 = "sorted_results IOC_CODES v1 w"
  let ?S2 = "sorted_results IOC_CODES_widget v2 w"
  have er: "map erase_country ?S2 = map erase_country ?S1"
    using assms(2,1) by (rule erased_results_agree)
  then have len: "length ?S2 = length ?S1"
    by (rule map_eq_imp_length_eq)
  have nth: "erase_country (?S2 ! i) = erase_country (?S1 ! i)" if "i < length ?S2" for i
    using that er len by (metis nth_map)
  have "map triple (map erase_country ?S2) = map triple (map erase_country ?S1)"
    using er by simp
  then have tr: "map triple ?S2 = map triple ?S1"
    by (simp add: comp_def)
  have fields: "code (?S2 ! i) = code (?S1 ! i) \<and> gold (?S2 ! i) = gold (?S1 ! i)
      \<and> silver (?S2 ! i) = silver (?S1 ! i) \<and> bronze (?S2 ! i) = bronze (?S1 ! i)
      \<and> total (?S2 ! i) = total (?S1 ! i)" if "i < length ?S2" for i
  proof -
    have "code (erase_country (?S2 ! i)) = code (erase_country (?S1 ! i))"
      "gold (erase_country (?S2 ! i)) = gold (erase_country (?S1 ! i))"
      "silver (erase_country (?S2 ! i)) = silver (erase_country (?S1 ! i))"
      "bronze (erase_country (?S2 ! i)) = bronze (erase_country (?S1 ! i))"
      "total (erase_country (?S2 ! i)) = total (erase_country (?S1 ! i))"
      using nth [OF that] by simp_all
    then show ?thesis
      by (simp add: erase_country_def)
  qed
  show ?thesis
  proof (intro exI conjI allI impI)
    show "parsed_widget v2 w = map (ranked ?S2) [0..<length ?S2]"
      by (rule parsed_widget_eq)
    show "length (map (ranked ?S2) [0..<length ?S2]) = length (parsed v1 w)"
      by (simp add: len length_parsed)
  next
    fix i
    assume "i < length (map (ranked ?S2) [0..<length ?S2])"
    then have i: "i < length ?S2"
      by simp
    then have i1: "i < length (parsed v1 w)"
      by (simp add: len length_parsed)
    have rk: "rank_of ?S2 i = rank_of ?S1 i"
      using tr i by (rule rank_of_cong)
    show "code (map (ranked ?S2) [0..<length ?S2] ! i) = code (parsed v1 w ! i)"
      "gold (map (ranked ?S2) [0..<length ?S2] ! i) = gold (parsed v1 w ! i)"
      "silver (map (ranked ?S2) [0..<length ?S2] ! i) = silver (parsed v1 w ! i)"
      "bronze (map (ranked ?S2) [0..<length ?S2] ! i) = bronze (parsed v1 w ! i)"
      "total (map (ranked ?S2) [0..<length ?S2] ! i) = total (parsed v1 w ! i)"
      "rank (map (ranked ?S2) [0..<length ?S2] ! i) = rank (parsed v1 w ! i)"
      using i fields [OF i] rk by (simp_all add: nth_parsed [OF i1])
    show "country (map (ranked ?S2) [0..<length ?S2] ! i) = country (parsed v1 w ! i)"
      if "code (map (ranked ?S2) [0..<length ?S2] ! i) \<noteq> ''AIN''
        \<and> code (map (ranked ?S2) [0..<length ?S2] ! i) \<noteq> ''BIH''"
    proof -
      have c: "code (?S2 ! i) \<noteq> ''AIN''" "code (?S2 ! i) \<noteq> ''BIH''"
        using that i by simp_all
      have "country (?S2 ! i) = get IOC_CODES_widget (code (?S2 ! i)) (code (?S2 ! i))"
        using i by (rule country_sorted_results)
      also have "\<dots> = get IOC_CODES (code (?S2 ! i)) (code (?S2 ! i))"
        using c by (rule names_agree [symmetric])
      also have "\<dots> = get IOC_CODES (code (?S1 ! i)) (code (?S1 ! i))"
        using fields [OF i] by simp
      also have "\<dots> = country (?S1 ! i)"
        using i len by (intro country_sorted_results [symmetric]) simp
      finally show ?thesis
        using i by (simp add: nth_parsed [OF i1])
    qed
  qed
qed

text \<open>
  Claim C10. On the same wikitext, \<open>parse_medals\<close> of \<open>olympic_medals_v2.py\<close> and the
  parsing part of \<open>fetch_medals\<close> of \<open>olympics.1r.10m+.py\<close> return lists of the same
  length that agree at every position on code, gold, silver, bronze, total and rank,
  whatever the two sequences in which their loops visit the set of codes, and where one
  of them raises, the other raises the same exception. The display names agree as well,
  except for the codes \<open>AIN\<close> and \<open>BIH\<close>, whose names differ in the two tables.
\<close>

theorem report_and_widget_agree:
  assumes "iterates v1 (all_codes w)" and "iterates v2 (all_codes w)"
  shows "(\<forall>out1. parse_medals v1 w = Inr out1 \<longrightarrow>
       (\<exists>out2. fetch_medals v2 (Returned (Str w)) = Inr (Some out2)
          \<and> length out2 = length out1
          \<and> (\<forall>i < length out2.
             code (out2 ! i) = code (out1 ! i)
             \<and> gold (out2 ! i) = gold (out1 ! i)
             \<and> silver (out2 ! i) = silver (out1 ! i)
             \<and> bronze (out2 ! i) = bronze (out1 ! i)
             \<and> total (out2 ! i) = total (out1 ! i)
             \<and> rank (out2 ! i) = rank (out1 ! i)
             \<and> (code (out2 ! i) \<noteq> ''AIN'' \<and> code (out2 ! i) \<noteq> ''BIH''
                  \<longrightarrow> country (out2 ! i) = country (out1 ! i))))) \<and>
   (\<forall>e. parse_medals v1 w = Inl e \<longrightarrow> fetch_medals v2 (Returned (Str w)) = Inl e)"
proof (intro conjI allI impI)
  fix out1
  assume p: "parse_medals v1 w = Inr out1"
  then have out1: "out1 = parsed v1 w" and conv: "convertible w"
    by (simp_all add: parse_medals_cases split: if_splits)
  have f: "fetch_medals v2 (Returned (Str w)) = Inr (Some (parsed_widget v2 w))"
    using conv by (simp add: fetch_medals_cases)
  from parsed_agree [OF assms, folded out1]
  show "\<exists>out2. fetch_medals v2 (Returned (Str w)) = Inr (Some out2)
          \<and> length out2 = length out1
          \<and> (\<forall>i < length out2.
             code (out2 ! i) = code (out1 ! i)
             \<and> gold (out2 ! i) = gold (out1 ! i)
             \<and> silver (out2 ! i) = silver (out1 ! i)
             \<and> bronze (out2 ! i) = bronze (out1 ! i)
             \<and> total (out2 ! i) = total (out1 ! i)
             \<and> rank (out2 ! i) = rank (out1 ! i)
             \<and> (code (out2 ! i) \<noteq> ''AIN'' \<and> code (out2 ! i) \<noteq> ''BIH''
                  \<longrightarrow> country (out2 ! i) = country (out1 ! i)))"
    unfolding f by simp
next
  fix e
  assume "parse_medals v1 w = Inl e"
  then show "fetch_medals v2 (Returned (Str w)) = Inl e"
    by (simp add: parse_medals_cases fetch_medals_cases split: if_splits)
qed

theorem report_and_widget_agree_witness:
  "iterates [''USA'', ''NOR'']
     (all_codes ''| gold_NOR = 5 | silver_NOR = 2 | bronze_NOR = 1 | gold_USA = 5 | silver_USA = 2 | bronze_USA = 1'')
   \<and> iterates [''NOR'', ''USA'']
     (all_codes ''| gold_NOR = 5 | silver_NOR = 2 | bronze_NOR = 1 | gold_USA = 5 | silver_USA = 2 | bronze_USA = 1'')
   \<and> parse_medals [''USA'', ''NOR'']
       ''| gold_NOR = 5 | silver_NOR = 2 | bronze_NOR = 1 | gold_USA = 5 | silver_USA = 2 | bronze_USA = 1'' =
     Inr [\<lparr>rank = Some 1, code = ''NOR'', country = ''Norway'', gold = 5, silver = 2,
      bronze = 1, total = 8\<rparr>,
    \<lparr>rank = Some 1, code = ''USA'', country = ''United States'', gold = 5, silver = 2,
      bronze = 1, total = 8\<rparr>]
   \<and> (\<exists>out2. fetch_medals [''NOR'', ''USA'']
          (Returned (Str ''| gold_NOR = 5 | silver_NOR = 2 | bronze_NOR = 1 | gold_USA = 5 | silver_USA = 2 | bronze_USA = 1''))
        = Inr (Some out2)
        \<and> length out2 = length [\<lparr>rank = Some 1, code = ''NOR'', country = ''Norway'', gold = 5, silver = 2,
      bronze = 1, total = 8\<rparr>,
    \<lparr>rank = Some 1, code = ''USA'', country = ''United States'', gold = 5, silver = 2,
      bronze = 1, total = 8\<rparr>]
        \<and> (1::nat) < length out2
        \<and> code (out2 ! 1) = code ([\<lparr>rank = Some 1, code = ''NOR'', country = ''Norway'', gold = 5, silver = 2,
      bronze = 1, total = 8\<rparr>,
    \<lparr>rank = Some 1, code = ''USA'', country = ''United States'', gold = 5, silver = 2,
      bronze = 1, total = 8\<rparr>] ! 1)
        \<and> total (out2 ! 1) = total ([\<lparr>rank = Some 1, code = ''NOR'', country = ''Norway'', gold = 5, silver = 2,
      bronze = 1, total = 8\<rparr>,
    \<lparr>rank = Some 1, code = ''USA'', country = ''United States'', gold = 5, silver = 2,
      bronze = 1, total = 8\<rparr>] ! 1)
        \<and> rank (out2 ! 1) = rank ([\<lparr>rank = Some 1, code = ''NOR'', country = ''Norway'', gold = 5, silver = 2,
      bronze = 1, total = 8\<rparr>,
    \<lparr>rank = Some 1, code = ''USA'', country = ''United States'', gold = 5, silver = 2,
      bronze = 1, total = 8\<rparr>] ! 1))"
proof -
  let ?out1 = "[\<lparr>rank = Some 1, code = ''NOR'', country = ''Norway'', gold = 5, silver = 2,
      bronze = 1, total = 8\<rparr>,
    \<lparr>rank = Some 1, code = ''USA'', country = ''United States'', gold = 5, silver = 2,
      bronze = 1, total = 8\<rparr>]"
  note th = report_and_widget_agree [OF it_tie2(1) it_tie2(2), THEN conjunct1, rule_format,
      OF ex_tie2]
  then obtain out2 where o: "fetch_medals [''NOR'', ''USA'']
        (Returned (Str ''| gold_NOR = 5 | silver_NOR = 2 | bronze_NOR = 1 | gold_USA = 5 | silver_USA = 2 | bronze_USA = 1'')) = Inr (Some out2)"
    and l: "length out2 = length ?out1"
    and a: "\<forall>i < length out2.
             code (out2 ! i) = code (?out1 ! i)
             \<and> gold (out2 ! i) = gold (?out1 ! i)
             \<and> silver (out2 ! i) = silver (?out1 ! i)
             \<and> bronze (out2 ! i) = bronze (?out1 ! i)
             \<and> total (out2 ! i) = total (?out1 ! i)
             \<and> rank (out2 ! i) = rank (?out1 ! i)
             \<and> (code (out2 ! i) \<noteq> ''AIN'' \<and> code (out2 ! i) \<noteq> ''BIH''
                  \<longrightarrow> country (out2 ! i) = country (?out1 ! i))"
    by blast
  have h: "(1::nat) < length out2"
    using l by simp
  from a h have "code (out2 ! 1) = code (?out1 ! 1)
      \<and> total (out2 ! 1) = total (?out1 ! 1)
      \<and> rank (out2 ! 1) = rank (?out1 ! 1)"
    by blast
  then show ?thesis
    using it_tie2 ex_tie2 o l h by blast
qed

section \<open>Comments\<close>

lemma find_close_skip:
  "\<not> sublist ''-->'' b \<Longrightarrow> find_close (b @ ''-->'' @ r) = Some r"
proof (induction b)
  case Nil
  then show ?case by simp
next
  case (Cons x b)
  have np: "\<not> prefix ''-->'' (x # b)" and ns: "\<not> sublist ''-->'' b"
    using Cons.prems by (simp_all add: sublist_Cons_right)
  have "\<not> prefix ''-->'' (x # b @ ''-->'' @ r)"
  proof (cases b)
    case Nil
    then show ?thesis by simp
  next
    case (Cons y b')
    show ?thesis
    proof (cases b')
      case Nil
      then show ?thesis using Cons by simp
    next
      case (Cons z b'')
      then show ?thesis using np \<open>b = y # b'\<close> by simp
    qed
  qed
  then have "find_close ((x # b) @ ''-->'' @ r) = find_close (b @ ''-->'' @ r)"
    by (simp only: append_Cons find_close.simps if_False)
  then show ?case
    using Cons.IH [OF ns] by (simp only:)
qed

lemma find_close_None: "\<not> sublist ''-->'' s \<Longrightarrow> find_close s = None"
  by (induction s) (simp_all add: sublist_Cons_right)

lemma strip_chunk:
  "\<not> sublist ''<!--'' t \<Longrightarrow> \<not> sublist ''-->'' b \<Longrightarrow>
   strip_comments (t @ ''<!--'' @ b @ ''-->'' @ r) = t @ strip_comments r"
proof (induction t)
  case Nil
  then show ?case
    using find_close_skip [of b r] by simp
next
  case (Cons x t)
  have np: "\<not> prefix ''<!--'' (x # t)" and ns: "\<not> sublist ''<!--'' t"
    using Cons.prems(1) by (simp_all add: sublist_Cons_right)
  have "\<not> prefix ''<!--'' (x # t @ ''<!--'' @ b @ ''-->'' @ r)"
  proof (cases t)
    case Nil
    then show ?thesis by simp
  next
    case c1: (Cons y1 t1)
    show ?thesis
    proof (cases t1)
      case Nil
      then show ?thesis using c1 by simp
    next
      case c2: (Cons y2 t2)
      show ?thesis
      proof (cases t2)
        case Nil
        then show ?thesis using c1 c2 by simp
      next
        case (Cons y3 t3)
        then show ?thesis using np c1 c2 by simp
      qed
    qed
  qed
  then have "strip_comments ((x # t) @ ''<!--'' @ b @ ''-->'' @ r)
      = x # strip_comments (t @ ''<!--'' @ b @ ''-->'' @ r)"
    by (simp only: append_Cons strip_comments.simps if_False)
  then show ?case
    using Cons.IH [OF ns Cons.prems(2)] by (simp only: append_Cons)
qed

lemma strip_no_comment: "\<not> has_comment s \<Longrightarrow> strip_comments s = s"
  by (induction s) (auto simp: find_close_None simp del: prefix_code)

lemma strip_with_comments:
  "chunked ps rest \<Longrightarrow> strip_comments (with_comments ps rest) = outside_comments ps rest"
proof (induction ps)
  case Nil
  then show ?case
    by (simp add: chunked_def strip_no_comment)
next
  case (Cons p ps)
  obtain t b where p: "p = (t, b)" by (cases p)
  have ch: "chunked ps rest" and tb: "\<not> sublist ''<!--'' t" "\<not> sublist ''-->'' b"
    using Cons.prems by (simp_all add: chunked_def p)
  have "strip_comments (with_comments (p # ps) rest)
      = t @ strip_comments (with_comments ps rest)"
    unfolding p with_comments.simps using tb by (rule strip_chunk)
  then show ?case
    using Cons.IH [OF ch] by (simp add: p)
qed

lemma literal_Some: "literal p s = Some r \<Longrightarrow> s = p @ r"
  by (induction p s rule: literal.induct) (auto split: if_splits)

lemma match_medal_parts:
  assumes "match_medal field s = Some (cd, n, rest)"
  shows "sublist cd s \<and> suffix rest s"
proof -
  from assms obtain c r0 r1 r3 where
    s: "s = c # r0" and
    r1: "literal field (dropWhile re_space r0) = Some r1" and
    cd: "cd = takeWhile re_word r1" and
    r3: "dropWhile re_space (dropWhile re_word r1) = CHR ''='' # r3" and
    rest: "rest = dropWhile re_digit (dropWhile re_space r3)"
    by (auto simp: match_medal_def Let_def split: if_splits option.splits list.splits)
  have a: "r0 = takeWhile re_space r0 @ field @ r1"
    using literal_Some [OF r1] takeWhile_dropWhile_id [of re_space r0] by simp
  have b: "r1 = cd @ dropWhile re_word r1"
    by (simp add: cd)
  have "s = (c # takeWhile re_space r0 @ field) @ cd @ dropWhile re_word r1"
    using s a b by simp
  then have 1: "sublist cd s"
    unfolding sublist_def by blast
  have "suffix rest r3"
    unfolding rest by (meson suffix_dropWhile suffix_order.trans)
  also have "suffix r3 (dropWhile re_space (dropWhile re_word r1))"
    unfolding r3 by (simp add: suffix_ConsI)
  also have "suffix \<dots> r1"
    by (meson suffix_dropWhile suffix_order.trans)
  also have "suffix r1 (dropWhile re_space r0)"
    using literal_Some [OF r1] by (simp add: suffix_def)
  also have "suffix \<dots> s"
    unfolding s by (simp add: suffix_ConsI suffix_dropWhile)
  finally show ?thesis
    using 1 by simp
qed

lemma finditer_sublist: "(cd, n) \<in> set (finditer field s) \<Longrightarrow> sublist cd s"
proof (induction field s rule: finditer.induct)
  case (1 field)
  then show ?case by simp
next
  case (2 field c cs)
  note ih = "2.IH" and mem = "2.prems"
  show ?case
  proof (cases "match_medal field (c # cs)")
    case None
    then have "sublist cd cs"
      using ih mem by simp
    then show ?thesis
      by (simp add: sublist_Cons_right)
  next
    case (Some m)
    obtain cd' n' rest where m: "m = (cd', n', rest)"
      by (cases m)
    have parts: "sublist cd' (c # cs)" "suffix rest (c # cs)"
      using match_medal_parts [of field "c # cs" cd' n' rest] Some m by simp_all
    from mem Some m consider (here) "cd = cd'" | (later) "(cd, n) \<in> set (finditer field rest)"
      by auto
    then show ?thesis
    proof cases
      case here
      then show ?thesis using parts by simp
    next
      case later
      have "sublist cd rest"
        using ih(2) [OF Some [unfolded m] refl refl later] .
      then obtain ps ss zs where "rest = ps @ cd @ ss" "c # cs = zs @ rest"
        using parts(2) unfolding sublist_def suffix_def by blast
      then have "c # cs = (zs @ ps) @ cd @ ss"
        by simp
      then show ?thesis
        unfolding sublist_def by blast
    qed
  qed
qed

lemma find_close_None_iff: "find_close s = None \<longleftrightarrow> \<not> sublist ''-->'' s"
proof (induction s)
  case Nil
  then show ?case by simp
next
  case (Cons c cs)
  show ?case
  proof (cases "prefix ''-->'' (c # cs)")
    case True
    then have "sublist ''-->'' (c # cs)"
      by (rule prefix_imp_sublist)
    moreover have "find_close (c # cs) = Some (drop 3 (c # cs))"
      using True by (simp only: find_close.simps if_True)
    ultimately show ?thesis
      by simp
  next
    case False
    then have "find_close (c # cs) = find_close cs"
      by (simp only: find_close.simps if_False)
    moreover have "sublist ''-->'' (c # cs) \<longleftrightarrow> sublist ''-->'' cs"
      using False by (simp only: sublist_Cons_right) simp
    ultimately show ?thesis
      using Cons.IH by simp
  qed
qed

lemma find_close_Some:
  "find_close s = Some r \<Longrightarrow> \<exists>b. s = b @ ''-->'' @ r \<and> \<not> sublist ''-->'' b"
proof (induction s)
  case Nil
  then show ?case by simp
next
  case (Cons c cs)
  show ?case
  proof (cases "prefix ''-->'' (c # cs)")
    case True
    then obtain z where "c # cs = ''-->'' @ z"
      unfolding prefix_def by blast
    moreover from this have "r = z"
      using Cons.prems by simp
    ultimately have "c # cs = [] @ ''-->'' @ r \<and> \<not> sublist ''-->'' ([] :: string)"
      by simp
    then show ?thesis
      by blast
  next
    case False
    then have "find_close cs = Some r"
      using Cons.prems by (simp only: find_close.simps if_False)
    then obtain b where b: "cs = b @ ''-->'' @ r" "\<not> sublist ''-->'' b"
      using Cons.IH by blast
    have "\<not> prefix ''-->'' (c # b)"
    proof
      assume "prefix ''-->'' (c # b)"
      then have "prefix ''-->'' ((c # b) @ ''-->'' @ r)"
        by (rule prefix_prefix)
      then have "prefix ''-->'' (c # cs)"
        unfolding b(1) by (simp only: append_Cons)
      then show False
        using False by blast
    qed
    then have "c # cs = (c # b) @ ''-->'' @ r \<and> \<not> sublist ''-->'' (c # b)"
      using b by (simp add: sublist_Cons_right)
    then show ?thesis
      by blast
  qed
qed

lemma every_text_chunked: "\<exists>ps rest. w = with_comments ps rest \<and> chunked ps rest"
proof (induction w rule: strip_comments.induct)
  case 1
  have "[] = with_comments [] [] \<and> chunked [] []"
    by (simp add: chunked_def)
  then show ?case by blast
next
  case (2 c cs)
  show ?case
  proof (cases "prefix ''<!--'' (c # cs) \<and> find_close (drop 4 (c # cs)) \<noteq> None")
    case True
    then obtain r where pre: "prefix ''<!--'' (c # cs)" and r: "find_close (drop 4 (c # cs)) = Some r"
      by auto
    from pre obtain z where z: "c # cs = ''<!--'' @ z"
      unfolding prefix_def by blast
    then have dz: "drop 4 (c # cs) = z"
      by simp
    from find_close_Some [OF r] dz obtain b where b: "z = b @ ''-->'' @ r" "\<not> sublist ''-->'' b"
      by auto
    from "2.IH"(2) [OF pre r] obtain ps rest where ih: "r = with_comments ps rest" "chunked ps rest"
      by blast
    have "c # cs = with_comments (([], b) # ps) rest \<and> chunked (([], b) # ps) rest"
      using z b ih by (simp add: chunked_def)
    then show ?thesis
      by blast
  next
    case False
    then have nc: "\<not> (prefix ''<!--'' (c # cs) \<and> sublist ''-->'' (drop 4 (c # cs)))"
      using find_close_None_iff [of "drop 4 (c # cs)"] by blast
    have "\<exists>ps rest. cs = with_comments ps rest \<and> chunked ps rest"
    proof (cases "prefix ''<!--'' (c # cs)")
      case True
      then have "find_close (drop 4 (c # cs)) = None"
        using False by blast
      from "2.IH"(1) [OF True this] show ?thesis .
    next
      case False
      from "2.IH"(3) [OF False] show ?thesis .
    qed
    then obtain ps rest where ih: "cs = with_comments ps rest" "chunked ps rest"
      by blast
    show ?thesis
    proof (cases ps)
      case Nil
      then have "c # cs = with_comments [] (c # rest) \<and> chunked [] (c # rest)"
        using ih nc by (simp add: chunked_def)
      then show ?thesis
        by blast
    next
      case (Cons p ps')
      obtain t b where p: "p = (t, b)" by (cases p)
      have tb: "\<not> sublist ''<!--'' t" "\<not> sublist ''-->'' b" and ch': "chunked ps' rest"
        using ih(2) Cons p by (simp_all add: chunked_def)
      have cs: "c # cs = (c # t) @ ''<!--'' @ b @ ''-->'' @ with_comments ps' rest"
        using ih(1) Cons p by simp
      have "\<not> prefix ''<!--'' (c # t)"
      proof
        assume pt: "prefix ''<!--'' (c # t)"
        then obtain u where u: "c # t = ''<!--'' @ u"
          unfolding prefix_def by blast
        have "prefix ''<!--'' (c # cs)"
          unfolding cs using pt by (rule prefix_prefix)
        moreover have "drop 4 (c # cs) = u @ ''<!--'' @ b @ ''-->'' @ with_comments ps' rest"
          unfolding cs u by simp
        then have "sublist ''-->'' (drop 4 (c # cs))"
          unfolding sublist_def by (metis append.assoc)
        ultimately show False
          using nc by blast
      qed
      then have "\<not> sublist ''<!--'' (c # t)"
        using tb(1) by (simp add: sublist_Cons_right)
      then have "c # cs = with_comments ((c # t, b) # ps') rest \<and> chunked ((c # t, b) # ps') rest"
        using cs tb(2) ch' by (simp add: chunked_def)
      then show ?thesis
        by blast
    qed
  qed
qed

lemma codes_in_all_codes:
  assumes "c \<in> code ` set (parsed visit w)"
  shows "c \<in> all_codes w"
proof -
  from assms obtain e where "e \<in> set (parsed visit w)" "code e = c"
    by auto
  then have "medal_sum w c \<noteq> 0"
    using in_parsed by blast
  then have "get (golds w) c 0 \<noteq> 0 \<or> get (silvers w) c 0 \<noteq> 0 \<or> get (bronzes w) c 0 \<noteq> 0"
    by (auto simp: medal_sum_def)
  then have "c \<in> dom (golds w) \<union> dom (silvers w) \<union> dom (bronzes w)"
    by (auto simp: get_def split: option.splits)
  then show ?thesis
    by (simp only: all_codes_dom)
qed

text \<open>A code of the result occurs in the text that is scanned.\<close>

lemma code_in_clean_text:
  assumes "c \<in> code ` set (parsed visit w)"
  shows "sublist c (strip_comments w)"
  using codes_in_all_codes [OF assms]
  by (auto simp: all_codes_def Let_def dest: finditer_sublist)

text \<open>\<open>parse_medals\<close> reads the wikitext through \<open>strip_comments\<close> only.\<close>

lemma parse_medals_cong:
  "strip_comments w = strip_comments w' \<Longrightarrow> parse_medals visit w = parse_medals visit w'"
  by (simp add: parse_medals_def)

lemma ex_comment:
  "parse_medals [''NOR'']
     ''| host = ITA | gold_NOR = 1 <!-- | gold_ITA = 7 | silver_NOR = 5 --> | bronze_NOR = 2'' =
   Inr [\<lparr>rank = Some 1, code = ''NOR'', country = ''Norway'', gold = 1, silver = 0,
      bronze = 2, total = 3\<rparr>]"
  by code_simp

lemma ex_comment_text:
  "with_comments [(''| host = ITA | gold_NOR = 1 '', '' | gold_ITA = 7 | silver_NOR = 5 '')] '' | bronze_NOR = 2''
   = ''| host = ITA | gold_NOR = 1 <!-- | gold_ITA = 7 | silver_NOR = 5 --> | bronze_NOR = 2''"
  "with_comments [(''| host = ITA | gold_NOR = 1 '', ''x'')] '' | bronze_NOR = 2''
   = ''| host = ITA | gold_NOR = 1 <!--x--> | bronze_NOR = 2''"
  by simp_all

lemma ex_comment_hyps:
  "chunked [(''| host = ITA | gold_NOR = 1 '', '' | gold_ITA = 7 | silver_NOR = 5 '')] '' | bronze_NOR = 2''"
  "\<not> assigned_outside ''ITA'' [(''| host = ITA | gold_NOR = 1 '', '' | gold_ITA = 7 | silver_NOR = 5 '')] '' | bronze_NOR = 2''"
  "chunked [(''| host = ITA | gold_NOR = 1 '', ''x'')] '' | bronze_NOR = 2''"
  "outside_comments [(''| host = ITA | gold_NOR = 1 '', ''x'')] '' | bronze_NOR = 2''
   = outside_comments [(''| host = ITA | gold_NOR = 1 '', '' | gold_ITA = 7 | silver_NOR = 5 '')] '' | bronze_NOR = 2''"
  "iterates [''NOR''] (all_codes ''| host = ITA | gold_NOR = 1 <!-- | gold_ITA = 7 | silver_NOR = 5 --> | bronze_NOR = 2'')"
  unfolding iterates_def by code_simp+

text \<open>
  Claim C7. What lies between a comment opening marker and the closing marker that ends
  the comment contributes nothing. The text that is scanned is the text outside the
  comments; the gold, silver and bronze values of every entry are those of the three
  dicts built from that text alone; a wikitext that differs in its comments only gives
  the same list; and a code that has no assignment outside the comments, whether or not
  it occurs there otherwise, is the code of no entry of the list. Every wikitext is such
  a sequence of chunks (lemma \<open>every_text_chunked\<close>).
\<close>

theorem commented_codes_excluded:
  assumes "chunked ps rest" and "parse_medals visit (with_comments ps rest) = Inr out"
  shows "strip_comments (with_comments ps rest) = outside_comments ps rest
   \<and> (\<exists>g s b. dict_of (finditer ''gold_'' (outside_comments ps rest)) = Inr g
        \<and> dict_of (finditer ''silver_'' (outside_comments ps rest)) = Inr s
        \<and> dict_of (finditer ''bronze_'' (outside_comments ps rest)) = Inr b
        \<and> (\<forall>e \<in> set out. gold e = get g (code e) 0 \<and> silver e = get s (code e) 0
              \<and> bronze e = get b (code e) 0))
   \<and> (\<forall>ps' rest'. chunked ps' rest'
          \<and> outside_comments ps' rest' = outside_comments ps rest \<longrightarrow>
        parse_medals visit (with_comments ps' rest') = Inr out)
   \<and> (\<forall>c. \<not> assigned_outside c ps rest \<longrightarrow> c \<notin> code ` set out)"
proof (intro conjI allI impI)
  let ?w = "with_comments ps rest"
  show st: "strip_comments ?w = outside_comments ps rest"
    using assms(1) by (rule strip_with_comments)
  have out: "out = parsed visit ?w"
    using assms(2) by (rule parse_medals_Inr)
  note d = dicts_of_parse [OF assms(2), unfolded st]
  have "\<forall>e \<in> set out. gold e = get (golds ?w) (code e) 0
      \<and> silver e = get (silvers ?w) (code e) 0 \<and> bronze e = get (bronzes ?w) (code e) 0"
    unfolding out using gold_of_entry silver_of_entry bronze_of_entry by blast
  then show "\<exists>g s b. dict_of (finditer ''gold_'' (outside_comments ps rest)) = Inr g
        \<and> dict_of (finditer ''silver_'' (outside_comments ps rest)) = Inr s
        \<and> dict_of (finditer ''bronze_'' (outside_comments ps rest)) = Inr b
        \<and> (\<forall>e \<in> set out. gold e = get g (code e) 0 \<and> silver e = get s (code e) 0
              \<and> bronze e = get b (code e) 0)"
    using d by blast
  show "parse_medals visit (with_comments ps' rest') = Inr out"
    if "chunked ps' rest' \<and> outside_comments ps' rest' = outside_comments ps rest"
    for ps' rest'
  proof -
    have "strip_comments (with_comments ps' rest') = strip_comments ?w"
      using that st by (simp add: strip_with_comments)
    then show ?thesis
      using assms(2) parse_medals_cong by metis
  qed
  show "c \<notin> code ` set out" if n: "\<not> assigned_outside c ps rest" for c
  proof
    assume "c \<in> code ` set out"
    then have "c \<in> all_codes ?w"
      unfolding out by (rule codes_in_all_codes)
    then show False
      using n by (simp add: all_codes_def Let_def st assigned_outside_def)
  qed
qed

theorem commented_codes_excluded_witness:
  "chunked [(''| host = ITA | gold_NOR = 1 '', '' | gold_ITA = 7 | silver_NOR = 5 '')] '' | bronze_NOR = 2''
   \<and> \<not> assigned_outside ''ITA'' [(''| host = ITA | gold_NOR = 1 '', '' | gold_ITA = 7 | silver_NOR = 5 '')] '' | bronze_NOR = 2''
   \<and> iterates [''NOR''] (all_codes ''| host = ITA | gold_NOR = 1 <!-- | gold_ITA = 7 | silver_NOR = 5 --> | bronze_NOR = 2'')
   \<and> parse_medals [''NOR'']
       ''| host = ITA | gold_NOR = 1 <!-- | gold_ITA = 7 | silver_NOR = 5 --> | bronze_NOR = 2'' =
     Inr [\<lparr>rank = Some 1, code = ''NOR'', country = ''Norway'', gold = 1, silver = 0,
      bronze = 2, total = 3\<rparr>]
   \<and> chunked [(''| host = ITA | gold_NOR = 1 '', ''x'')] '' | bronze_NOR = 2''
   \<and> outside_comments [(''| host = ITA | gold_NOR = 1 '', ''x'')] '' | bronze_NOR = 2''
     = outside_comments [(''| host = ITA | gold_NOR = 1 '', '' | gold_ITA = 7 | silver_NOR = 5 '')] '' | bronze_NOR = 2''
   \<and> strip_comments ''| host = ITA | gold_NOR = 1 <!-- | gold_ITA = 7 | silver_NOR = 5 --> | bronze_NOR = 2''
     = ''| host = ITA | gold_NOR = 1  | bronze_NOR = 2''
   \<and> parse_medals [''NOR''] ''| host = ITA | gold_NOR = 1 <!--x--> | bronze_NOR = 2'' =
     Inr [\<lparr>rank = Some 1, code = ''NOR'', country = ''Norway'', gold = 1, silver = 0,
      bronze = 2, total = 3\<rparr>]
   \<and> ''ITA'' \<notin> code ` set [\<lparr>rank = Some 1, code = ''NOR'', country = ''Norway'', gold = 1, silver = 0,
      bronze = 2, total = 3\<rparr>]"
proof -
  have p: "parse_medals [''NOR''] (with_comments [(''| host = ITA | gold_NOR = 1 '', '' | gold_ITA = 7 | silver_NOR = 5 '')] '' | bronze_NOR = 2'') =
     Inr [\<lparr>rank = Some 1, code = ''NOR'', country = ''Norway'', gold = 1, silver = 0,
      bronze = 2, total = 3\<rparr>]"
    unfolding ex_comment_text by (rule ex_comment)
  note th = commented_codes_excluded [OF ex_comment_hyps(1) p]
  have c1: "strip_comments ''| host = ITA | gold_NOR = 1 <!-- | gold_ITA = 7 | silver_NOR = 5 --> | bronze_NOR = 2''
      = ''| host = ITA | gold_NOR = 1  | bronze_NOR = 2''"
    using th [THEN conjunct1] unfolding ex_comment_text by simp
  have "parse_medals [''NOR''] (with_comments [(''| host = ITA | gold_NOR = 1 '', ''x'')] '' | bronze_NOR = 2'') =
     Inr [\<lparr>rank = Some 1, code = ''NOR'', country = ''Norway'', gold = 1, silver = 0,
      bronze = 2, total = 3\<rparr>]"
    using th ex_comment_hyps(3,4) by blast
  then have c2: "parse_medals [''NOR''] ''| host = ITA | gold_NOR = 1 <!--x--> | bronze_NOR = 2'' =
     Inr [\<lparr>rank = Some 1, code = ''NOR'', country = ''Norway'', gold = 1, silver = 0,
      bronze = 2, total = 3\<rparr>]"
    unfolding ex_comment_text .
  have c3: "''ITA'' \<notin> code ` set [\<lparr>rank = Some 1, code = ''NOR'', country = ''Norway'', gold = 1, silver = 0,
      bronze = 2, total = 3\<rparr>]"
    using th ex_comment_hyps(2) by blast
  show ?thesis
    using ex_comment_hyps ex_comment c1 c2 c3 by blast
qed

end
